theory Spec2Isabelle
  imports Complex_Main "HOL-Library.Sublist" "HOL-Library.AList" "HOL-Library.Multiset"
begin

section \<open>JavaScript strings\<close>

text \<open>
  A JavaScript string is modelled as a \<open>string\<close>: the list of the bytes of its UTF-8
  encoding. Every literal the scripts compare against is ASCII, so wherever the scripts
  look at single characters a code unit of the source is one \<open>char\<close>. White space is
  the ASCII white space (tab, line feed, vertical tab, form feed, carriage return,
  space) and the line terminators are line feed and carriage return: the white space
  and line terminators of JavaScript outside ASCII (U+00A0, U+FEFF, U+2028, ...) are
  not modelled, their bytes count as ordinary characters. What is said below of the
  parser on files of any content is therefore said of ASCII files.
\<close>

definition is_space :: "char \<Rightarrow> bool" where
  "is_space c = (c \<in> set [CHR 0x09, CHR 0x0A, CHR 0x0B, CHR 0x0C, CHR 0x0D, CHR 0x20])"

definition is_line_terminator :: "char \<Rightarrow> bool" where
  "is_line_terminator c = (c = CHR 0x0A \<or> c = CHR 0x0D)"

text \<open>A text of ASCII characters only.\<close>

definition ascii :: "string \<Rightarrow> bool" where
  "ascii s = list_all (\<lambda>c. (of_char c :: nat) < 128) s"

text \<open>\<open>s.startsWith(p)\<close> and \<open>s.includes(sub)\<close>.\<close>

fun startsWith :: "string \<Rightarrow> string \<Rightarrow> bool" where
  "startsWith s [] = True"
| "startsWith [] (p # ps) = False"
| "startsWith (c # cs) (p # ps) = (c = p \<and> startsWith cs ps)"

fun includes_str :: "string \<Rightarrow> string \<Rightarrow> bool" where
  "includes_str [] sub = (sub = [])"
| "includes_str (c # cs) sub = (startsWith (c # cs) sub \<or> includes_str cs sub)"

text \<open>\<open>s.trim()\<close>.\<close>

definition trim :: "string \<Rightarrow> string" where
  "trim s = rev (dropWhile is_space (rev (dropWhile is_space s)))"

text \<open>\<open>s.lastIndexOf(c)\<close> for a single character: the index, or -1.\<close>

fun lastIndexOf :: "string \<Rightarrow> char \<Rightarrow> int" where
  "lastIndexOf [] c = -1"
| "lastIndexOf (x # xs) c =
     (let r = lastIndexOf xs c
      in if r \<ge> 0 then r + 1 else if x = c then 0 else -1)"

text \<open>\<open>s.split(c)\<close> for a separator of one character: never an empty array.\<close>

fun split_char :: "char \<Rightarrow> string \<Rightarrow> string list" where
  "split_char c [] = [[]]"
| "split_char c (x # xs) =
     (if x = c then [] # split_char c xs
      else (case split_char c xs of
              [] \<Rightarrow> [[x]]
            | p # ps \<Rightarrow> (x # p) # ps))"

text \<open>\<open>s.split(sep)[0]\<close> for a separator that is not empty: the text before its first
  occurrence, the whole of \<open>s\<close> when there is none.\<close>

fun split_first :: "string \<Rightarrow> string \<Rightarrow> string" where
  "split_first sep [] = []"
| "split_first sep (c # cs) =
     (if startsWith (c # cs) sep then [] else c # split_first sep cs)"

text \<open>\<open>lines.join\<close> with a line feed between the lines.\<close>

fun join_lines :: "string list \<Rightarrow> string" where
  "join_lines [] = []"
| "join_lines [l] = l"
| "join_lines (l # m # ls) = l @ CHR 0x0A # join_lines (m # ls)"

text \<open>The decimal digits of a natural number, as \<open>String(n)\<close> writes them.\<close>

definition digit_char :: "nat \<Rightarrow> char" where
  "digit_char d = ''0123456789'' ! d"

fun show_nat :: "nat \<Rightarrow> string" where
  "show_nat n = (if n < 10 then [digit_char n] else show_nat (n div 10) @ [digit_char (n mod 10)])"

declare show_nat.simps [simp del]

section \<open>Regular expressions\<close>

text \<open>
  The regular expressions of the scripts, with the backtracking semantics of
  ECMAScript: a matcher takes the state of the match and a continuation, and the first
  alternative whose continuation succeeds is the match. The state is the captures
  closed so far, the position in the input and the input from there on. A repetition
  applies to a single character class, which is all the scripts use.
\<close>

datatype atom =
    Dot
  | Digit
  | Space
  | Chars "(char \<times> char) list"

definition code_unit :: "char \<Rightarrow> nat" where
  "code_unit c = of_char c"

text \<open>The dot, the digit class, the white space class and a bracket class given by its
  ranges.\<close>

fun atom_ok :: "atom \<Rightarrow> char \<Rightarrow> bool" where
  "atom_ok Dot c = (\<not> is_line_terminator c)"
| "atom_ok Digit c = (code_unit CHR ''0'' \<le> code_unit c \<and> code_unit c \<le> code_unit CHR ''9'')"
| "atom_ok Space c = is_space c"
| "atom_ok (Chars rs) c = list_ex (\<lambda>(a, b). code_unit a \<le> code_unit c \<and> code_unit c \<le> code_unit b) rs"

datatype regex =
    Lit string
  | One atom
  | Star atom
  | Plus atom
  | PlusLazy atom
  | Group regex
  | NotAhead regex
  | Bol
  | Eol
  | Seq "regex list"
  | Alt "regex list"

type_synonym mstate = "string list \<times> nat \<times> string"

text \<open>Greedy \<open>a*\<close>: as many characters as possible first, then one fewer, and so on.\<close>

fun star_k :: "atom \<Rightarrow> string list \<Rightarrow> nat \<Rightarrow> string \<Rightarrow> (mstate \<Rightarrow> mstate option) \<Rightarrow> mstate option" where
  "star_k a caps i [] k = k (caps, i, [])"
| "star_k a caps i (c # s) k =
     (if atom_ok a c
      then (case star_k a caps (Suc i) s k of
              Some r \<Rightarrow> Some r
            | None \<Rightarrow> k (caps, i, c # s))
      else k (caps, i, c # s))"

text \<open>Lazy \<open>a+?\<close>: one character first, then one more, and so on.\<close>

fun lazy_k :: "atom \<Rightarrow> string list \<Rightarrow> nat \<Rightarrow> string \<Rightarrow> (mstate \<Rightarrow> mstate option) \<Rightarrow> mstate option" where
  "lazy_k a caps i [] k = None"
| "lazy_k a caps i (c # s) k =
     (if atom_ok a c
      then (case k (caps, Suc i, s) of
              Some r \<Rightarrow> Some r
            | None \<Rightarrow> lazy_k a caps (Suc i) s k)
      else None)"

text \<open>
  A group appends the text it matched to the captures when it closes: in a regular
  expression whose groups are neither nested nor inside an alternative, the n-th
  capture is the n-th group, as in the two expressions whose captures the script
  reads. \<open>^\<close> and \<open>$\<close> are the start and the end of the input (no \<open>m\<close> flag).
\<close>

fun rmatch :: "regex \<Rightarrow> mstate \<Rightarrow> (mstate \<Rightarrow> mstate option) \<Rightarrow> mstate option" where
  "rmatch (Lit l) (caps, i, s) k =
     (if startsWith s l then k (caps, i + length l, drop (length l) s) else None)"
| "rmatch (One a) (caps, i, s) k =
     (case s of [] \<Rightarrow> None | c # t \<Rightarrow> if atom_ok a c then k (caps, Suc i, t) else None)"
| "rmatch (Star a) (caps, i, s) k = star_k a caps i s k"
| "rmatch (Plus a) (caps, i, s) k =
     (case s of [] \<Rightarrow> None | c # t \<Rightarrow> if atom_ok a c then star_k a caps (Suc i) t k else None)"
| "rmatch (PlusLazy a) (caps, i, s) k = lazy_k a caps i s k"
| "rmatch (Group r) (caps, i, s) k =
     rmatch r (caps, i, s) (\<lambda>(caps', j, t). k (caps' @ [take (j - i) s], j, t))"
| "rmatch (NotAhead r) st k =
     (case rmatch r st Some of None \<Rightarrow> k st | Some m \<Rightarrow> None)"
| "rmatch Bol (caps, i, s) k = (if i = 0 then k (caps, i, s) else None)"
| "rmatch Eol (caps, i, s) k = (if s = [] then k (caps, i, s) else None)"
| "rmatch (Seq []) st k = k st"
| "rmatch (Seq (r # rs)) st k = rmatch r st (\<lambda>st'. rmatch (Seq rs) st' k)"
| "rmatch (Alt []) st k = None"
| "rmatch (Alt (r # rs)) st k =
     (case rmatch r st k of Some m \<Rightarrow> Some m | None \<Rightarrow> rmatch (Alt rs) st k)"

text \<open>
  \<open>s.match(r)\<close> for a regular expression without the \<open>g\<close> flag: the match at the
  leftmost position that has one, as the array of the matched text and the captures,
  or \<open>null\<close>.
\<close>

fun exec_from :: "regex \<Rightarrow> nat \<Rightarrow> string \<Rightarrow> string list option" where
  "exec_from r i [] =
     (case rmatch r ([], i, []) Some of
        Some (caps, j, t) \<Rightarrow> Some ([] # caps)
      | None \<Rightarrow> None)"
| "exec_from r i (c # s) =
     (case rmatch r ([], i, c # s) Some of
        Some (caps, j, t) \<Rightarrow> Some (take (j - i) (c # s) # caps)
      | None \<Rightarrow> exec_from r (Suc i) s)"

definition regex_match :: "string \<Rightarrow> regex \<Rightarrow> string list option" where
  "regex_match s r = exec_from r 0 s"

text \<open>\<open>r.test(s)\<close>.\<close>

definition regex_test :: "regex \<Rightarrow> string \<Rightarrow> bool" where
  "regex_test r s = (regex_match s r \<noteq> None)"

text \<open>An alternative of literal texts, \<open>(a|b|c)\<close> without the group.\<close>

definition one_of :: "string list \<Rightarrow> regex" where
  "one_of ws = Alt (map Lit ws)"

section \<open>scripts/generate-css-custom-properties.ts: classification\<close>

datatype layer = Foundation | Semantic | Component | Excluded

definition heading_level :: regex where
  "heading_level = Seq [Lit ''h'', One (Chars [(CHR ''1'', CHR ''6'')])]"

definition FOUNDATION_PATTERNS :: "regex list" where
  "FOUNDATION_PATTERNS =
    [Seq [Bol, Lit ''$font-family-'', Group (one_of [''base'', ''mono'']), Eol],
     Seq [Bol, Lit ''$font-size-'',
          Group (Alt [Lit ''3xl'', Lit ''2xl'', Lit ''xl'', Lit ''lg'', Lit ''md'', Lit ''sm'',
                      Lit ''xs'', Lit ''2xs'', Lit ''base'', heading_level]), Eol],
     Seq [Bol, Lit ''$font-weight-'',
          Group (Alt [Lit ''light'', Lit ''normal'', Lit ''medium'', Lit ''semi-bold'', Lit ''bold'',
                      Lit ''extra-bold'', Lit ''black'', Lit ''base'', heading_level]), Eol],
     Seq [Bol, Lit ''$line-height-'',
          Group (Alt [Lit ''base'', Lit ''xl'', Lit ''lg'', Lit ''md'', Lit ''sm'', heading_level]), Eol],
     Seq [Bol, Lit ''$color-'',
          Group (one_of [''grey'', ''red'', ''pink'', ''purple'', ''indigo'', ''violet'', ''navy'',
                         ''blue'', ''bright-blue'', ''cyan'', ''teal'', ''teal-blue'', ''mint'',
                         ''green'', ''yellow'', ''orange'']),
          Lit ''-'', Plus Digit, Eol],
     Seq [Bol, Lit ''$color-'', Group (one_of [''black'', ''white'']), Eol],
     Seq [Bol, Lit ''$base-unit'', Eol],
     Seq [Bol, Lit ''$opacity-'', Plus Digit, Eol],
     Seq [Bol, Lit ''$border-radius-'',
          Group (one_of [''base'', ''sharp'', ''circle'', ''medium'', ''rounded-pill'']), Eol],
     Seq [Bol, Lit ''$focus-color'', Eol],
     Seq [Bol, Lit ''$link-color'', Eol],
     Seq [Bol, Lit ''$link-hover-color'', Eol],
     Seq [Bol, Lit ''$icon-size-'',
          Group (one_of [''base'', ''xs'', ''sm'', ''sm2'', ''sm3'', ''md'', ''lg'', ''xl'', ''xxl'']), Eol],
     Seq [Bol, Lit ''$'', Group (one_of [''sm'', ''md'', ''lg'', ''xl'', ''xxl'']), Lit ''-breakpoint'', Eol],
     Seq [Bol, Lit ''$zindex-'']]"

definition SEMANTIC_PATTERNS :: "regex list" where
  "SEMANTIC_PATTERNS =
    [Seq [Bol, Lit ''$color-text-''],
     Seq [Bol, Lit ''$color-icon-''],
     Seq [Bol, Lit ''$color-border-''],
     Seq [Bol, Lit ''$color-background-'', NotAhead (Lit ''gradient'')]]"

definition EXCLUDE_PATTERNS :: "regex list" where
  "EXCLUDE_PATTERNS =
    [Seq [Bol, Lit ''$state-colors'', Eol],
     Seq [Bol, Lit ''$color-semantic'', Eol],
     Seq [Bol, Lit ''$screen-sizes'', Eol],
     Seq [Bol, Lit ''$shadow'', Eol],
     Seq [Bol, Lit ''$cap-height'', Eol],
     Seq [Bol, Lit ''$font-family-icon'', Eol],
     Seq [Bol, Lit ''$icon-color'', Eol]]"

text \<open>\<open>for (const pattern of patterns) if (pattern.test(fullName)) return ...\<close>: whether
  the loop returns from inside.\<close>

fun first_pattern_matches :: "regex list \<Rightarrow> string \<Rightarrow> bool" where
  "first_pattern_matches [] fullName = False"
| "first_pattern_matches (pattern # rest) fullName =
     (if regex_test pattern fullName then True else first_pattern_matches rest fullName)"

definition classifyToken :: "string \<Rightarrow> string \<Rightarrow> layer" where
  "classifyToken fullName v =
     (if first_pattern_matches EXCLUDE_PATTERNS fullName then Excluded
      else if startsWith v ''('' \<or> includes_str v ''linear-gradient'' then Excluded
      else if first_pattern_matches FOUNDATION_PATTERNS fullName then Foundation
      else if first_pattern_matches SEMANTIC_PATTERNS fullName then Semantic
      else Component)"

section \<open>scripts/generate-css-custom-properties.ts: synthetic tokens\<close>

record SyntheticToken =
  syn_name :: string
  scssExpression :: string
  syn_comment :: "string option"
  syn_type :: string
  syn_category :: string

text \<open>The em dash and the box-drawing dash of the script's texts, in UTF-8.\<close>

definition em_dash :: string where
  "em_dash = [CHR 0xE2, CHR 0x80, CHR 0x94]"

definition box_dash :: string where
  "box_dash = [CHR 0xE2, CHR 0x94, CHR 0x80]"

definition SYNTHETIC_SHADOW_TOKENS :: "SyntheticToken list" where
  "SYNTHETIC_SHADOW_TOKENS =
    [\<lparr>syn_name = ''shadow-0'', scssExpression = ''none'', syn_comment = Some ''No shadow'',
      syn_type = ''shadow'', syn_category = ''elevation''\<rparr>,
     \<lparr>syn_name = ''shadow-1'', scssExpression = ''map-get($shadow, 1)'',
      syn_comment = Some (''Elevation 1 '' @ em_dash @ '' subtle''),
      syn_type = ''shadow'', syn_category = ''elevation''\<rparr>,
     \<lparr>syn_name = ''shadow-2'', scssExpression = ''map-get($shadow, 2)'',
      syn_comment = Some (''Elevation 2 '' @ em_dash @ '' card''),
      syn_type = ''shadow'', syn_category = ''elevation''\<rparr>,
     \<lparr>syn_name = ''shadow-3'', scssExpression = ''map-get($shadow, 3)'',
      syn_comment = Some (''Elevation 3 '' @ em_dash @ '' dropdown''),
      syn_type = ''shadow'', syn_category = ''elevation''\<rparr>,
     \<lparr>syn_name = ''shadow-4'', scssExpression = ''map-get($shadow, 4)'',
      syn_comment = Some (''Elevation 4 '' @ em_dash @ '' modal''),
      syn_type = ''shadow'', syn_category = ''elevation''\<rparr>,
     \<lparr>syn_name = ''shadow-5'', scssExpression = ''map-get($shadow, 5)'',
      syn_comment = Some (''Elevation 5 '' @ em_dash @ '' max elevation''),
      syn_type = ''shadow'', syn_category = ''elevation''\<rparr>]"

text \<open>
  \<open>buildSpacingScale\<close> computes with JavaScript numbers. Every number it computes is a
  multiple of 1/4 below 400, or 100 or 16 times such a number: binary floating point
  represents these exactly and adds, multiplies, divides and takes remainders of them
  without rounding, so the numbers are modelled as rationals.
\<close>

definition Math_round :: "rat \<Rightarrow> rat" where
  "Math_round x = of_int \<lfloor>x + 1 / 2\<rfloor>"

text \<open>The remainder operator \<open>%\<close>: the quotient is truncated towards zero.\<close>

definition js_rem :: "rat \<Rightarrow> rat \<Rightarrow> rat" where
  "js_rem x y = x - y * of_int (if x / y \<ge> 0 then \<lfloor>x / y\<rfloor> else \<lceil>x / y\<rceil>)"

text \<open>
  A number in a template literal, for a number that is not negative and has at most two
  decimal places (all that the script prints): the integer part, and the decimal places
  without a trailing zero.
\<close>

definition num_str :: "rat \<Rightarrow> string" where
  "num_str q =
     (let n = nat \<lfloor>q\<rfloor>;
          f = nat \<lfloor>(q - of_nat n) * 100\<rfloor>
      in show_nat n @
         (if f = 0 then []
          else if f mod 10 = 0 then ''.'' @ [digit_char (f div 10)]
          else ''.'' @ [digit_char (f div 10), digit_char (f mod 10)]))"

text \<open>The three loops of \<open>buildSpacingScale\<close>, on the array \<open>steps\<close> and the counter
  \<open>index\<close>.\<close>

lemma Math_round_step: "r + d - 1 / 200 < Math_round ((r + d) * 100) / 100"
proof -
  have "(r + d) * 100 + 1 / 2 - 1 < of_int \<lfloor>(r + d) * 100 + 1 / 2\<rfloor>"
    by linarith
  then show ?thesis
    unfolding Math_round_def by (simp add: field_simps)
qed

lemma loop_measure_decreases:
  fixes r r' hi :: rat
  assumes "r \<le> hi" and "r + 1 / 5 < r'"
  shows "(if r' \<le> hi then nat \<lfloor>(hi - r') * 1000\<rfloor> + 1 else 0) < nat \<lfloor>(hi - r) * 1000\<rfloor> + 1"
proof (cases "r' \<le> hi")
  case True
  then have "0 \<le> \<lfloor>(hi - r') * 1000\<rfloor>"
    by simp
  moreover have "(hi - r') * 1000 + 200 < (hi - r) * 1000"
    using assms(2) by simp
  then have "\<lfloor>(hi - r') * 1000\<rfloor> < \<lfloor>(hi - r) * 1000\<rfloor>"
    by linarith
  ultimately have "nat \<lfloor>(hi - r') * 1000\<rfloor> < nat \<lfloor>(hi - r) * 1000\<rfloor>"
    by linarith
  with True show ?thesis by simp
next
  case False
  then show ?thesis by simp
qed

function quarter_loop :: "rat \<Rightarrow> (nat \<times> rat) list \<Rightarrow> nat \<Rightarrow> (nat \<times> rat) list \<times> nat" where
  "quarter_loop r steps index =
     (if r \<le> 3
      then quarter_loop (Math_round ((r + 1 / 4) * 100) / 100) (steps @ [(index, r)]) (index + 1)
      else (steps, index))"
  by pat_completeness auto
termination
proof (relation "measure (\<lambda>(r, steps, index). if r \<le> 3 then nat \<lfloor>(3 - r) * 1000\<rfloor> + 1 else 0)")
  show "wf (measure (\<lambda>(r, steps, index). if r \<le> 3 then nat \<lfloor>(3 - r) * 1000\<rfloor> + 1 else 0))"
    by simp
next
  fix r :: rat and steps :: "(nat \<times> rat) list" and index :: nat
  assume le: "r \<le> 3"
  have "r + 1 / 5 < Math_round ((r + 1 / 4) * 100) / 100"
    using Math_round_step [of r "1 / 4"] by simp
  from loop_measure_decreases [OF le this] le
  show "((Math_round ((r + 1 / 4) * 100) / 100, steps @ [(index, r)], index + 1), (r, steps, index))
      \<in> measure (\<lambda>(r, steps, index). if r \<le> 3 then nat \<lfloor>(3 - r) * 1000\<rfloor> + 1 else 0)"
    unfolding in_measure prod.case by (simp only: if_True)
qed

function half_loop :: "rat \<Rightarrow> (nat \<times> rat) list \<Rightarrow> nat \<Rightarrow> (nat \<times> rat) list \<times> nat" where
  "half_loop r steps index =
     (if r \<le> 4
      then half_loop (Math_round ((r + 1 / 2) * 100) / 100) (steps @ [(index, r)]) (index + 1)
      else (steps, index))"
  by pat_completeness auto
termination
proof (relation "measure (\<lambda>(r, steps, index). if r \<le> 4 then nat \<lfloor>(4 - r) * 1000\<rfloor> + 1 else 0)")
  show "wf (measure (\<lambda>(r, steps, index). if r \<le> 4 then nat \<lfloor>(4 - r) * 1000\<rfloor> + 1 else 0))"
    by simp
next
  fix r :: rat and steps :: "(nat \<times> rat) list" and index :: nat
  assume le: "r \<le> 4"
  have "r + 1 / 5 < Math_round ((r + 1 / 2) * 100) / 100"
    using Math_round_step [of r "1 / 2"] by simp
  from loop_measure_decreases [OF le this] le
  show "((Math_round ((r + 1 / 2) * 100) / 100, steps @ [(index, r)], index + 1), (r, steps, index))
      \<in> measure (\<lambda>(r, steps, index). if r \<le> 4 then nat \<lfloor>(4 - r) * 1000\<rfloor> + 1 else 0)"
    unfolding in_measure prod.case by (simp only: if_True)
qed

function unit_loop :: "rat \<Rightarrow> (nat \<times> rat) list \<Rightarrow> nat \<Rightarrow> (nat \<times> rat) list \<times> nat" where
  "unit_loop r steps index =
     (if r \<le> 24
      then unit_loop (r + 1) (steps @ [(index, r)]) (index + 1)
      else (steps, index))"
  by pat_completeness auto
termination
proof (relation "measure (\<lambda>(r, steps, index). if r \<le> 24 then nat \<lfloor>(24 - r) * 1000\<rfloor> + 1 else 0)")
  show "wf (measure (\<lambda>(r, steps, index). if r \<le> 24 then nat \<lfloor>(24 - r) * 1000\<rfloor> + 1 else 0))"
    by simp
next
  fix r :: rat and steps :: "(nat \<times> rat) list" and index :: nat
  assume le: "r \<le> 24"
  have "r + 1 / 5 < r + 1"
    by simp
  from loop_measure_decreases [OF le this] le
  show "((r + 1, steps @ [(index, r)], index + 1), (r, steps, index))
      \<in> measure (\<lambda>(r, steps, index). if r \<le> 24 then nat \<lfloor>(24 - r) * 1000\<rfloor> + 1 else 0)"
    unfolding in_measure prod.case by (simp only: if_True)
qed

declare quarter_loop.simps [simp del] half_loop.simps [simp del] unit_loop.simps [simp del]

definition spacing_steps :: "(nat \<times> rat) list" where
  "spacing_steps =
     (case quarter_loop (1 / 4) [(0, 0)] 1 of
        (steps1, index1) \<Rightarrow>
          (case half_loop (7 / 2) steps1 index1 of
             (steps2, index2) \<Rightarrow> fst (unit_loop 5 steps2 index2)))"

text \<open>The function mapped over \<open>steps\<close>.\<close>

definition spacing_token :: "nat \<times> rat \<Rightarrow> SyntheticToken" where
  "spacing_token st =
     (case st of (i, r) \<Rightarrow>
        let v = (if r = 0 then ''0'' else num_str r @ ''rem'');
            px = r * 16;
            chiSpaceIdx = (if js_rem r (1 / 2) = 0 then Some (r / (1 / 2)) else None);
            spaceNote =
              (case chiSpaceIdx of
                 None \<Rightarrow> []
               | Some k \<Rightarrow>
                   if k \<ge> 0 \<and> k \<le> 10
                   then '' '' @ em_dash @ '' Chi space('' @ num_str k @ '')''
                   else [])
        in \<lparr>syn_name = ''spacing-'' @ show_nat i,
            scssExpression = v,
            syn_comment = Some (v @ (if r > 0 then '' ('' @ num_str px @ ''px)'' else []) @ spaceNote),
            syn_type = ''spacing'',
            syn_category = ''spacing''\<rparr>)"

definition buildSpacingScale :: "SyntheticToken list" where
  "buildSpacingScale = map spacing_token spacing_steps"

text \<open>The comment of a synthetic token as a text, empty when it has none.\<close>

definition comment_text :: "SyntheticToken \<Rightarrow> string" where
  "comment_text t = (case syn_comment t of Some c \<Rightarrow> c | None \<Rightarrow> [])"


definition SYNTHETIC_SPACING_TOKENS :: "SyntheticToken list" where
  "SYNTHETIC_SPACING_TOKENS = buildSpacingScale"

definition SYNTHETIC_BORDER_WIDTH_TOKENS :: "SyntheticToken list" where
  "SYNTHETIC_BORDER_WIDTH_TOKENS =
    [\<lparr>syn_name = ''border-width-0'', scssExpression = ''0'', syn_comment = Some ''0 (0px)'',
      syn_type = ''borderWidth'', syn_category = ''border-width''\<rparr>,
     \<lparr>syn_name = ''border-width-1'', scssExpression = ''0.0625rem'',
      syn_comment = Some (''0.0625rem (1px) '' @ em_dash @ '' standard''),
      syn_type = ''borderWidth'', syn_category = ''border-width''\<rparr>,
     \<lparr>syn_name = ''border-width-2'', scssExpression = ''0.125rem'',
      syn_comment = Some (''0.125rem (2px) '' @ em_dash @ '' active/emphasis''),
      syn_type = ''borderWidth'', syn_category = ''border-width''\<rparr>,
     \<lparr>syn_name = ''border-width-3'', scssExpression = ''0.1875rem'',
      syn_comment = Some (''0.1875rem (3px) '' @ em_dash @ '' heavy (Lumen buttons)''),
      syn_type = ''borderWidth'', syn_category = ''border-width''\<rparr>,
     \<lparr>syn_name = ''border-width-4'', scssExpression = ''0.25rem'',
      syn_comment = Some (''0.25rem (4px) '' @ em_dash @ '' max''),
      syn_type = ''borderWidth'', syn_category = ''border-width''\<rparr>]"

definition SYNTHETIC_DURATION_TOKENS :: "SyntheticToken list" where
  "SYNTHETIC_DURATION_TOKENS =
    [\<lparr>syn_name = ''duration-fastest'', scssExpression = ''0.075s'',
      syn_comment = Some (''0.075s (75ms) '' @ em_dash @ '' collapse/expand height''),
      syn_type = ''duration'', syn_category = ''motion''\<rparr>,
     \<lparr>syn_name = ''duration-faster'', scssExpression = ''0.1s'',
      syn_comment = Some (''0.1s (100ms) '' @ em_dash @ '' hover micro-interactions''),
      syn_type = ''duration'', syn_category = ''motion''\<rparr>,
     \<lparr>syn_name = ''duration-fast'', scssExpression = ''0.15s'',
      syn_comment = Some (''0.15s (150ms) '' @ em_dash @ '' input focus, tags''),
      syn_type = ''duration'', syn_category = ''motion''\<rparr>,
     \<lparr>syn_name = ''duration-normal'', scssExpression = ''0.2s'',
      syn_comment = Some (''0.2s (200ms) '' @ em_dash @ '' general purpose default''),
      syn_type = ''duration'', syn_category = ''motion''\<rparr>,
     \<lparr>syn_name = ''duration-slow'', scssExpression = ''0.3s'',
      syn_comment = Some (''0.3s (300ms) '' @ em_dash @ '' toggle switch, tabs''),
      syn_type = ''duration'', syn_category = ''motion''\<rparr>,
     \<lparr>syn_name = ''duration-slower'', scssExpression = ''0.4s'',
      syn_comment = Some (''0.4s (400ms) '' @ em_dash @ '' header search''),
      syn_type = ''duration'', syn_category = ''motion''\<rparr>,
     \<lparr>syn_name = ''duration-slowest'', scssExpression = ''0.5s'',
      syn_comment = Some (''0.5s (500ms) '' @ em_dash @ '' modal, drawer, backdrop''),
      syn_type = ''duration'', syn_category = ''motion''\<rparr>,
     \<lparr>syn_name = ''duration-skeleton'', scssExpression = ''2s'',
      syn_comment = Some (''2s (2000ms) '' @ em_dash @ '' skeleton loading animation''),
      syn_type = ''duration'', syn_category = ''motion''\<rparr>]"

definition SYNTHETIC_EASING_TOKENS :: "SyntheticToken list" where
  "SYNTHETIC_EASING_TOKENS =
    [\<lparr>syn_name = ''ease'', scssExpression = ''ease'',
      syn_comment = Some (''Ease '' @ em_dash @ '' cards, sidenav''),
      syn_type = ''easing'', syn_category = ''motion''\<rparr>,
     \<lparr>syn_name = ''ease-in'', scssExpression = ''ease-in'',
      syn_comment = Some (''Ease-in '' @ em_dash @ '' buttons, links, carousel''),
      syn_type = ''easing'', syn_category = ''motion''\<rparr>,
     \<lparr>syn_name = ''ease-out'', scssExpression = ''ease-out'',
      syn_comment = Some (''Ease-out '' @ em_dash @ '' accordion height collapse''),
      syn_type = ''easing'', syn_category = ''motion''\<rparr>,
     \<lparr>syn_name = ''ease-in-out'', scssExpression = ''ease-in-out'',
      syn_comment = Some (''Ease-in-out '' @ em_dash @ '' general purpose (most common)''),
      syn_type = ''easing'', syn_category = ''motion''\<rparr>,
     \<lparr>syn_name = ''ease-bounce'', scssExpression = ''cubic-bezier(1, 0.38, 0, 1.19)'',
      syn_comment = Some (''Bounce '' @ em_dash @ '' toggle switch''),
      syn_type = ''easing'', syn_category = ''motion''\<rparr>]"

definition ALL_SYNTHETIC_TOKENS :: "SyntheticToken list list" where
  "ALL_SYNTHETIC_TOKENS =
    [SYNTHETIC_SHADOW_TOKENS, SYNTHETIC_SPACING_TOKENS, SYNTHETIC_BORDER_WIDTH_TOKENS,
     SYNTHETIC_DURATION_TOKENS, SYNTHETIC_EASING_TOKENS]"

section \<open>scripts/generate-css-custom-properties.ts: the SCSS parser\<close>

record ScssVariable =
  name :: string
  rawValue :: string
  comment :: "string option"
  line :: nat
  layer :: layer

text \<open>The expression matched against every line: a dollar sign at the start of the line,
  the name, a colon with optional white space around it, and the rest of the line.\<close>

definition name_class :: atom where
  "name_class = Chars [(CHR ''a'', CHR ''z''), (CHR ''A'', CHR ''Z''), (CHR ''0'', CHR ''9''),
                       (CHR ''_'', CHR ''_''), (CHR ''-'', CHR ''-'')]"

definition declaration_regex :: regex where
  "declaration_regex =
     Seq [Bol, Lit ''$'', Group (Plus name_class),
          Star Space, Lit '':'', Star Space, Group (Plus Dot), Eol]"

text \<open>The expression that finds an inline comment: two slashes, optional white space,
  and the rest of the text.\<close>

definition comment_regex :: regex where
  "comment_regex = Seq [Lit ''//'', Star Space, Group (PlusLazy Dot), Eol]"

text \<open>\<open>line.match(...)\<close> with its two captures \<open>match[1]\<close> and \<open>match[2]\<close>. A match of
  this expression always has both.\<close>

definition declaration_match :: "string \<Rightarrow> (string \<times> string) option" where
  "declaration_match l =
     (case regex_match l declaration_regex of
        Some [whole, nm, rawValuePart] \<Rightarrow> Some (nm, rawValuePart)
      | _ \<Rightarrow> None)"

text \<open>
  The inner loop that accumulates a value over several lines. Its last argument is the
  lines after line \<open>i\<close>: \<open>i + 1 < lines.length\<close> says that it is not empty.
\<close>

fun accumulate :: "string \<Rightarrow> nat \<Rightarrow> string list \<Rightarrow> string \<times> nat \<times> string list" where
  "accumulate rawValuePart i [] = (rawValuePart, i, [])"
| "accumulate rawValuePart i (l # ls) =
     (if \<not> includes_str rawValuePart '';''
      then accumulate (rawValuePart @ '' '' @ trim l) (Suc i) ls
      else (rawValuePart, i, l # ls))"

text \<open>
  The body of \<open>if (match)\<close>: from the index of the line, the two captures and the lines
  after it to the variable pushed, the index afterwards and the lines after that index.
\<close>

definition parse_declaration :: "nat \<Rightarrow> string \<Rightarrow> string \<Rightarrow> string list \<Rightarrow> ScssVariable \<times> nat \<times> string list" where
  "parse_declaration i nm rawValuePart0 ls =
     (case (if \<not> includes_str rawValuePart0 '';''
               \<or> (includes_str rawValuePart0 ''('' \<and> \<not> includes_str rawValuePart0 '')'')
            then accumulate rawValuePart0 i ls
            else (rawValuePart0, i, ls)) of
        (rawValuePart, i', rest) \<Rightarrow>
          let semicolonIdx = lastIndexOf rawValuePart CHR '';'';
              v0 = (if semicolonIdx \<ge> 0 then trim (take (nat semicolonIdx) rawValuePart)
                    else trim rawValuePart);
              commentMatch = regex_match rawValuePart comment_regex;
              cmt = (case commentMatch of
                       Some [whole, c] \<Rightarrow> Some (trim c)
                     | _ \<Rightarrow> None);
              v = (if commentMatch \<noteq> None \<and> includes_str v0 ''//''
                   then trim (split_first ''//'' v0) else v0)
          in (\<lparr>name = nm, rawValue = v, comment = cmt, line = i' + 1,
               layer = classifyToken (''$'' @ nm) v\<rparr>,
              i', rest))"

lemma accumulate_length: "accumulate r i ls = (r', i', rest) \<Longrightarrow> length rest \<le> length ls"
  by (induction r i ls rule: accumulate.induct) (auto split: if_splits)

lemma parse_declaration_length:
  "parse_declaration i nm r ls = (var, i', rest) \<Longrightarrow> length rest \<le> length ls"
  by (auto simp: parse_declaration_def Let_def split: if_splits prod.splits dest: accumulate_length)

text \<open>The outer loop, on the index \<open>i\<close> and the lines from \<open>i\<close> on.\<close>

function parse_from :: "nat \<Rightarrow> string list \<Rightarrow> ScssVariable list" where
  "parse_from i [] = []"
| "parse_from i (l # ls) =
     (case declaration_match l of
        None \<Rightarrow> parse_from (Suc i) ls
      | Some (nm, rawValuePart) \<Rightarrow>
          (case parse_declaration i nm rawValuePart ls of
             (var, i', rest) \<Rightarrow> var # parse_from (Suc i') rest))"
  by pat_completeness auto
termination
proof (relation "measure (\<lambda>(i, ls). length ls)")
  show "wf (measure (\<lambda>(i, ls). length ls))"
    by simp
next
  fix i :: nat and l :: string and ls :: "string list"
  show "((Suc i, ls), (i, l # ls)) \<in> measure (\<lambda>(i, ls). length ls)"
    by simp
next
  fix i :: nat and l :: string and ls rest :: "string list" and x2 nm rawValuePart var y i'
  assume "(var, y) = parse_declaration i nm rawValuePart ls" and "(i', rest) = y"
  then have "parse_declaration i nm rawValuePart ls = (var, i', rest)"
    by simp
  then have "length rest \<le> length ls"
    by (rule parse_declaration_length)
  then show "((Suc i', rest), (i, l # ls)) \<in> measure (\<lambda>(i, ls). length ls)"
    by simp
qed

declare parse_from.simps [simp del]

text \<open>\<open>parseScssVariables\<close>, from the content that \<open>fs.readFileSync\<close> returned.\<close>

definition parseScssVariables :: "string \<Rightarrow> ScssVariable list" where
  "parseScssVariables content = parse_from 0 (split_char CHR 0x0A content)"

section \<open>scripts/generate-css-custom-properties.ts: the SCSS file generator\<close>

definition PREFIX :: string where
  "PREFIX = ''chi''"

definition toCssCustomProp :: "string \<Rightarrow> string" where
  "toCssCustomProp scssName = ''--'' @ PREFIX @ ''-'' @ scssName"

definition toScssInterpolation :: "string \<Rightarrow> string" where
  "toScssInterpolation scssVarName = ''#{$'' @ scssVarName @ ''}''"

text \<open>
  A JavaScript \<open>Map\<close> or object with string keys is an association list in the order
  of insertion: \<open>set\<close> on a key that is present replaces its value where it stands, on a
  new key it appends. This is \<open>AList.update\<close>. (An object orders keys that are array
  indices first and treats \<open>__proto__\<close> specially; no foundation or semantic token has
  such a name.)
\<close>

text \<open>\<open>for (const v of tokens) m.set(v.name, v)\<close> and then \<open>Array.from(m.values())\<close>.\<close>

definition foundationMap :: "ScssVariable list \<Rightarrow> (string \<times> ScssVariable) list" where
  "foundationMap tokens = fold (\<lambda>v m. AList.update (name v) v m) tokens []"

definition dedupedFoundation :: "ScssVariable list \<Rightarrow> ScssVariable list" where
  "dedupedFoundation tokens = map snd (foundationMap tokens)"

text \<open>The regular expressions of \<open>groupFoundationTokens\<close> and of the two \<open>infer\<close> functions.\<close>

definition font_size_text_regex :: regex where
  "font_size_text_regex =
     Seq [Bol, Lit ''font-size-'',
          Group (one_of [''3xl'', ''2xl'', ''xl'', ''lg'', ''md'', ''sm'', ''xs'', ''2xs'', ''base'']), Eol]"

definition font_size_heading_regex :: regex where
  "font_size_heading_regex = Seq [Bol, Lit ''font-size-h'', One Digit, Eol]"

definition font_weight_regex :: regex where
  "font_weight_regex =
     Seq [Bol, Lit ''font-weight-'',
          Group (one_of [''light'', ''normal'', ''medium'', ''semi-bold'', ''bold'', ''extra-bold'',
                         ''black'', ''base'']), Eol]"

definition font_weight_heading_regex :: regex where
  "font_weight_heading_regex = Seq [Bol, Lit ''font-weight-h'', One Digit, Eol]"

definition line_height_regex :: regex where
  "line_height_regex =
     Seq [Bol, Lit ''line-height-'', Group (one_of [''base'', ''xl'', ''lg'', ''md'', ''sm'']), Eol]"

definition line_height_heading_regex :: regex where
  "line_height_heading_regex = Seq [Bol, Lit ''line-height-h'', One Digit, Eol]"

definition breakpoint_regex :: regex where
  "breakpoint_regex = Seq [Lit ''-breakpoint'', Eol]"

text \<open>The chain of tests of \<open>groupFoundationTokens\<close>: the group a name is added to.\<close>

definition foundation_group :: "string \<Rightarrow> string" where
  "foundation_group n =
     (if startsWith n ''font-family-'' then ''Typography - Font Family''
      else if regex_test font_size_text_regex n then ''Typography - Font Size (Text)''
      else if regex_test font_size_heading_regex n then ''Typography - Font Size (Headings)''
      else if regex_test font_weight_regex n then ''Typography - Font Weight''
      else if regex_test font_weight_heading_regex n then ''Typography - Font Weight (Headings)''
      else if regex_test line_height_regex n then ''Typography - Line Height''
      else if regex_test line_height_heading_regex n then ''Typography - Line Height (Headings)''
      else if startsWith n ''color-grey-'' then ''Colors - Grey Ramp''
      else if startsWith n ''color-red-'' then ''Colors - Red Ramp''
      else if startsWith n ''color-pink-'' then ''Colors - Pink Ramp''
      else if startsWith n ''color-purple-'' then ''Colors - Purple Ramp''
      else if startsWith n ''color-indigo-'' then ''Colors - Indigo Ramp''
      else if startsWith n ''color-navy-'' then ''Colors - Navy Ramp''
      else if startsWith n ''color-bright-blue-'' then ''Colors - Bright Blue Ramp''
      else if startsWith n ''color-blue-'' then ''Colors - Blue Ramp''
      else if startsWith n ''color-cyan-'' then ''Colors - Cyan Ramp''
      else if startsWith n ''color-teal-blue-'' then ''Colors - Teal Blue Ramp''
      else if startsWith n ''color-teal-'' then ''Colors - Teal Ramp''
      else if startsWith n ''color-mint-'' then ''Colors - Mint Ramp''
      else if startsWith n ''color-green-'' then ''Colors - Green Ramp''
      else if startsWith n ''color-yellow-'' then ''Colors - Yellow Ramp''
      else if startsWith n ''color-orange-'' then ''Colors - Orange Ramp''
      else if n = ''color-black'' \<or> n = ''color-white'' then ''Colors - Black & White''
      else if n = ''base-unit'' then ''Base Unit''
      else if startsWith n ''opacity-'' then ''Opacity Scale''
      else if startsWith n ''border-radius'' then ''Border Radius''
      else if startsWith n ''focus-'' then ''Focus''
      else if startsWith n ''link-'' then ''Link''
      else if startsWith n ''icon-size-'' then ''Icon Sizing''
      else if regex_test breakpoint_regex n then ''Breakpoints''
      else if startsWith n ''zindex-'' then ''Z-Index Scale''
      else ''Other Foundation'')"

definition semantic_group :: "string \<Rightarrow> string" where
  "semantic_group n =
     (if startsWith n ''color-text-'' then ''Text Colors''
      else if startsWith n ''color-icon-'' then ''Icon Colors''
      else if startsWith n ''color-border-'' then ''Border Colors''
      else if startsWith n ''color-background-'' then ''Background Colors''
      else ''Other Semantic'')"

text \<open>
  \<open>addToGroup\<close>: the map \<open>groups\<close> and the array \<open>order\<close> together are the association
  list of the groups in the order in which they were first used.
\<close>

definition addToGroup :: "string \<Rightarrow> ScssVariable \<Rightarrow> (string \<times> ScssVariable list) list \<Rightarrow> (string \<times> ScssVariable list) list" where
  "addToGroup g token groups =
     (case map_of groups g of
        None \<Rightarrow> groups @ [(g, [token])]
      | Some members \<Rightarrow> AList.update g (members @ [token]) groups)"

definition groupFoundationTokens :: "ScssVariable list \<Rightarrow> (string \<times> ScssVariable list) list" where
  "groupFoundationTokens tokens =
     fold (\<lambda>token groups. addToGroup (foundation_group (name token)) token groups) tokens []"

definition groupSemanticTokens :: "ScssVariable list \<Rightarrow> (string \<times> ScssVariable list) list" where
  "groupSemanticTokens tokens =
     fold (\<lambda>token groups. addToGroup (semantic_group (name token)) token groups) tokens []"

record GeneratedOutput =
  scss :: string
  foundationCount :: nat
  semanticCount :: nat
  totalCount :: nat

text \<open>\<open>capitalize\<close>, for a first letter in ASCII.\<close>

definition toUpperCase_char :: "char \<Rightarrow> char" where
  "toUpperCase_char c =
     (if code_unit CHR ''a'' \<le> code_unit c \<and> code_unit c \<le> code_unit CHR ''z''
      then char_of (code_unit c - 32) else c)"

definition capitalize :: "string \<Rightarrow> string" where
  "capitalize s = (case s of [] \<Rightarrow> [] | c # cs \<Rightarrow> toUpperCase_char c # cs)"

definition rule_line :: string where
  "rule_line = ''// '' @ replicate 77 CHR ''=''"

text \<open>The heading of a group of properties, with its dashes.\<close>

definition group_heading :: "string \<Rightarrow> string" where
  "group_heading groupName =
     ''  // '' @ box_dash @ box_dash @ '' '' @ groupName @ '' ''
     @ concat (replicate (60 - length groupName) box_dash) @ box_dash @ box_dash"

text \<open>The comment appended to a declaration when the token has one: an empty comment
  counts as none.\<close>

definition comment_suffix :: "string option \<Rightarrow> string" where
  "comment_suffix c =
     (case c of
        None \<Rightarrow> []
      | Some t \<Rightarrow> if t = [] then [] else '' // '' @ t)"

definition token_line :: "ScssVariable \<Rightarrow> string" where
  "token_line token =
     ''  '' @ toCssCustomProp (name token) @ '': '' @ toScssInterpolation (name token) @ '';''
     @ comment_suffix (comment token)"

definition synthetic_line :: "SyntheticToken \<Rightarrow> string" where
  "synthetic_line syn =
     ''  '' @ toCssCustomProp (syn_name syn) @ '': ''
     @ (if includes_str (scssExpression syn) ''map-get('' then ''#{'' @ scssExpression syn @ ''}''
        else scssExpression syn)
     @ '';'' @ comment_suffix (syn_comment syn)"

definition group_lines :: "string \<times> ScssVariable list \<Rightarrow> string list" where
  "group_lines g = (case g of (groupName, tokens) \<Rightarrow> group_heading groupName # map token_line tokens @ [[]])"

definition syntheticScales :: "(string \<times> SyntheticToken list) list" where
  "syntheticScales =
     [(''Shadow Scale'', SYNTHETIC_SHADOW_TOKENS),
      (''Spacing Scale'', SYNTHETIC_SPACING_TOKENS),
      (''Border Width Scale'', SYNTHETIC_BORDER_WIDTH_TOKENS),
      (''Transition Duration Scale'', SYNTHETIC_DURATION_TOKENS),
      (''Easing Functions'', SYNTHETIC_EASING_TOKENS)]"

definition scale_lines :: "string \<times> SyntheticToken list \<Rightarrow> string list" where
  "scale_lines sc = (case sc of (label, tokens) \<Rightarrow> group_heading label # map synthetic_line tokens @ [[]])"

text \<open>The lines pushed before the two layers.\<close>

definition header_lines :: "string \<Rightarrow> string \<Rightarrow> nat \<Rightarrow> nat \<Rightarrow> nat \<Rightarrow> string list" where
  "header_lines theme generatedAt nTotal nFoundation nSemantic =
     [rule_line,
      ''// CSS Custom Properties - '' @ capitalize theme @ '' Theme'',
      ''// Generated by: scripts/generate-css-custom-properties.ts'',
      ''// Generated at: '' @ generatedAt,
      ''// Total Properties: '' @ show_nat nTotal,
      ''// Foundation: '' @ show_nat nFoundation @ '' | Semantic: '' @ show_nat nSemantic,
      ''// All foundation + semantic tokens at :root (globally accessible)'',
      ''// Legacy properties under %css-variables / .chi (backward compat)'',
      rule_line,
      [],
      ''@import '' @ [CHR 0x27] @ ''_global-variables'' @ [CHR 0x27] @ '';'',
      ''@import '' @ [CHR 0x27] @ ''_variables'' @ [CHR 0x27] @ '';'',
      ''@import '' @ [CHR 0x27] @ ''_global-mixins'' @ [CHR 0x27] @ '';'',
      ''@import '' @ [CHR 0x27] @ ''_mixins'' @ [CHR 0x27] @ '';'',
      [],
      ''// sass-lint:disable-all'',
      []]"

text \<open>The lines pushed by \<open>if (dedupedFoundation.length > 0)\<close>.\<close>

definition foundation_section :: "ScssVariable list \<Rightarrow> string list" where
  "foundation_section deduped =
     (if length deduped > 0
      then [rule_line,
            ''// Foundation Layer - :root scope (universal, not theme-switchable)'',
            rule_line,
            '':root {'']
           @ concat (map group_lines (groupFoundationTokens deduped))
           @ concat (map scale_lines syntheticScales)
           @ [''}'', []]
      else [])"

definition legacy_lines :: "string list" where
  "legacy_lines =
     [rule_line,
      ''// Legacy Custom Properties (backward compat '' @ em_dash @ '' kept under %css-variables / .chi)'',
      rule_line,
      ''%css-variables {'',
      ''  --color-background-primary: #{$color-background-primary};'',
      ''  --color-background-secondary: #{$color-background-secondary};'',
      ''  --color-link-cta-icon: #{$link-cta-icon-color};'',
      ''  --color-marketing-icon-primary: #{$marketing-icon-primary-color};'',
      ''  --color-marketing-icon-secondary: #{$marketing-icon-secondary-color};'',
      ''  --color-marketing-icon-tertiary: #{$marketing-icon-tertiary-color};'',
      ''  --color-marketing-icon-shadow: #{$marketing-icon-shadow-color};'',
      ''}'']"

text \<open>The lines pushed by \<open>if (semanticTokens.length > 0)\<close>.\<close>

definition semantic_section :: "ScssVariable list \<Rightarrow> ScssVariable list \<Rightarrow> string list" where
  "semantic_section deduped semanticTokens =
     (if length semanticTokens > 0
      then (if length deduped = 0
            then ['':root {'']
            else [rule_line,
                  ''// Semantic Layer - :root scope (globally accessible, theme-specific values)'',
                  rule_line,
                  '':root {''])
           @ concat (map group_lines (groupSemanticTokens semanticTokens))
           @ [''}'', []]
           @ legacy_lines
      else [])"

text \<open>
  \<open>generateCssVariablesScss\<close>. The layers requested are a list of \<open>Foundation\<close> and
  \<open>Semantic\<close>; \<open>generatedAt\<close> is the time that \<open>new Date().toISOString()\<close> returns.
\<close>

definition foundationTokens :: "ScssVariable list \<Rightarrow> ScssVariable list \<Rightarrow> layer list \<Rightarrow> ScssVariable list" where
  "foundationTokens themeVars globalVars layers =
     (if Foundation \<in> set layers
      then filter (\<lambda>v. layer v = Foundation) globalVars @ filter (\<lambda>v. layer v = Foundation) themeVars
      else [])"

definition semanticTokens :: "ScssVariable list \<Rightarrow> layer list \<Rightarrow> ScssVariable list" where
  "semanticTokens themeVars layers =
     (if Semantic \<in> set layers then filter (\<lambda>v. layer v = Semantic) themeVars else [])"

definition syntheticCount :: nat where
  "syntheticCount = fold (\<lambda>arr sum. sum + length arr) ALL_SYNTHETIC_TOKENS 0"

definition scss_lines :: "ScssVariable list \<Rightarrow> ScssVariable list \<Rightarrow> string \<Rightarrow> layer list \<Rightarrow> string \<Rightarrow> string list" where
  "scss_lines themeVars globalVars theme layers generatedAt =
     (let deduped = dedupedFoundation (foundationTokens themeVars globalVars layers);
          sem = semanticTokens themeVars layers;
          nFoundation = length deduped + syntheticCount;
          nSemantic = length sem;
          nTotal = nFoundation + nSemantic
      in header_lines theme generatedAt nTotal nFoundation nSemantic
         @ foundation_section deduped
         @ semantic_section deduped sem
         @ [[]])"

definition generateCssVariablesScss :: "ScssVariable list \<Rightarrow> ScssVariable list \<Rightarrow> string \<Rightarrow> layer list \<Rightarrow> string \<Rightarrow> GeneratedOutput" where
  "generateCssVariablesScss themeVars globalVars theme layers generatedAt =
     (let deduped = dedupedFoundation (foundationTokens themeVars globalVars layers);
          sem = semanticTokens themeVars layers;
          nFoundation = length deduped + syntheticCount;
          nSemantic = length sem;
          nTotal = nFoundation + nSemantic
      in \<lparr>scss = join_lines (scss_lines themeVars globalVars theme layers generatedAt),
          foundationCount = nFoundation,
          semanticCount = nSemantic,
          totalCount = nTotal\<rparr>)"

text \<open>The custom property declarations of a generated text: its lines that start, after
  their indentation, with the prefix of the custom properties.\<close>

definition chi_line :: "string \<Rightarrow> bool" where
  "chi_line l = startsWith (dropWhile is_space l) ''--chi-''"

definition chi_declarations :: "string \<Rightarrow> string list" where
  "chi_declarations t = filter chi_line (split_char CHR 0x0A t)"

text \<open>The tokens whose declarations the two sections hold, in the order of the lines.\<close>

definition emitted_foundation :: "ScssVariable list \<Rightarrow> ScssVariable list" where
  "emitted_foundation deduped = concat (map snd (groupFoundationTokens deduped))"

definition emitted_semantic :: "ScssVariable list \<Rightarrow> ScssVariable list" where
  "emitted_semantic sem = concat (map snd (groupSemanticTokens sem))"

section \<open>scripts/generate-css-custom-properties.ts: the JSON metadata\<close>

record TokenEntry =
  scssVariable :: string
  cssVariable :: string
  entry_rawValue :: string
  resolvedValue :: string
  entry_type :: string
  entry_category :: string
  entry_comment :: "string option"

record TokenCount =
  count_foundation :: nat
  count_semantic :: nat
  count_component :: nat
  count_total :: nat
  count_cssCustomProperties :: nat

record TokenMetadata =
  meta_theme :: string
  meta_version :: string
  meta_generatedAt :: string
  tokenCount :: TokenCount
  tokens_foundation :: "(string \<times> TokenEntry) list"
  tokens_semantic :: "(string \<times> TokenEntry) list"

definition inferTokenType :: "string \<Rightarrow> string \<Rightarrow> string" where
  "inferTokenType n v =
     (if startsWith n ''color-'' \<or> startsWith n ''focus-color'' then ''color''
      else if startsWith n ''font-family-'' then ''fontFamily''
      else if startsWith n ''font-size-'' then ''fontSize''
      else if startsWith n ''font-weight-'' then ''fontWeight''
      else if startsWith n ''line-height'' then ''lineHeight''
      else if startsWith n ''opacity-'' then ''opacity''
      else if startsWith n ''border-radius'' then ''borderRadius''
      else if startsWith n ''border-width-'' then ''borderWidth''
      else if startsWith n ''icon-size-'' then ''size''
      else if n = ''base-unit'' then ''dimension''
      else if startsWith n ''link-'' then ''color''
      else if startsWith n ''shadow-'' then ''shadow''
      else if startsWith n ''spacing-'' then ''spacing''
      else if startsWith n ''duration-'' then ''duration''
      else if startsWith n ''ease'' then ''easing''
      else if regex_test breakpoint_regex n then ''breakpoint''
      else if startsWith n ''zindex-'' then ''zIndex''
      else ''other'')"

definition inferCategory :: "string \<Rightarrow> string" where
  "inferCategory n =
     (if startsWith n ''font-'' \<or> startsWith n ''line-height'' then ''typography''
      else if startsWith n ''color-text-'' then ''text-colors''
      else if startsWith n ''color-icon-'' then ''icon-colors''
      else if startsWith n ''color-border-'' then ''border-colors''
      else if startsWith n ''color-background-'' then ''background-colors''
      else if startsWith n ''color-'' then ''color-palette''
      else if startsWith n ''opacity-'' then ''opacity''
      else if startsWith n ''border-radius'' then ''border-radius''
      else if startsWith n ''border-width-'' then ''border-width''
      else if startsWith n ''icon-size'' then ''icon-sizing''
      else if startsWith n ''focus-'' \<or> startsWith n ''link-'' then ''interactive''
      else if n = ''base-unit'' then ''spacing''
      else if startsWith n ''spacing-'' then ''spacing''
      else if startsWith n ''shadow-'' then ''elevation''
      else if startsWith n ''duration-'' \<or> startsWith n ''ease'' then ''motion''
      else if regex_test breakpoint_regex n then ''breakpoints''
      else if startsWith n ''zindex-'' then ''z-index''
      else ''other'')"

text \<open>The \<open>comment\<close> property of an entry: present when the token has a comment that
  is not empty.\<close>

definition comment_property :: "string option \<Rightarrow> string option" where
  "comment_property c =
     (case c of
        None \<Rightarrow> None
      | Some t \<Rightarrow> if t = [] then None else Some t)"

text \<open>The entry made of a variable, for both layers.\<close>

definition variable_entry :: "ScssVariable \<Rightarrow> TokenEntry" where
  "variable_entry token =
     \<lparr>scssVariable = ''$'' @ name token,
      cssVariable = toCssCustomProp (name token),
      entry_rawValue = rawValue token,
      resolvedValue = [],
      entry_type = inferTokenType (name token) (rawValue token),
      entry_category = inferCategory (name token),
      entry_comment = comment_property (comment token)\<rparr>"

text \<open>\<open>s.replace(pattern, '')\<close> for a pattern that is a text: its first occurrence is
  removed.\<close>

fun remove_first :: "string \<Rightarrow> string \<Rightarrow> string" where
  "remove_first pat [] = []"
| "remove_first pat (c # cs) =
     (if startsWith (c # cs) pat then drop (length pat) (c # cs) else c # remove_first pat cs)"

definition synthetic_entry :: "SyntheticToken \<Rightarrow> TokenEntry" where
  "synthetic_entry syn =
     \<lparr>scssVariable =
        (if includes_str (scssExpression syn) ''map-get''
         then ''map-get($shadow, '' @ remove_first ''shadow-'' (syn_name syn) @ '')''
         else scssExpression syn),
      cssVariable = toCssCustomProp (syn_name syn),
      entry_rawValue = scssExpression syn,
      resolvedValue = [],
      entry_type = inferTokenType (syn_name syn) (scssExpression syn),
      entry_category = inferCategory (syn_name syn),
      entry_comment = comment_property (syn_comment syn)\<rparr>"

text \<open>The loops that fill \<open>foundationEntries\<close> and \<open>semanticEntries\<close>.\<close>

definition add_variable_entries :: "ScssVariable list \<Rightarrow> (string \<times> TokenEntry) list \<Rightarrow> (string \<times> TokenEntry) list" where
  "add_variable_entries tokens entries =
     fold (\<lambda>token es. AList.update (name token) (variable_entry token) es) tokens entries"

definition add_synthetic_entries :: "SyntheticToken list \<Rightarrow> (string \<times> TokenEntry) list \<Rightarrow> (string \<times> TokenEntry) list" where
  "add_synthetic_entries syns entries =
     fold (\<lambda>syn es. AList.update (syn_name syn) (synthetic_entry syn) es) syns entries"

definition foundationEntries :: "ScssVariable list \<Rightarrow> ScssVariable list \<Rightarrow> (string \<times> TokenEntry) list" where
  "foundationEntries themeVars globalVars =
     fold add_synthetic_entries ALL_SYNTHETIC_TOKENS
       (add_variable_entries
          (dedupedFoundation (filter (\<lambda>v. layer v = Foundation) globalVars
                              @ filter (\<lambda>v. layer v = Foundation) themeVars)) [])"

definition semanticEntries :: "ScssVariable list \<Rightarrow> (string \<times> TokenEntry) list" where
  "semanticEntries themeVars =
     add_variable_entries (filter (\<lambda>v. layer v = Semantic) themeVars) []"

definition generateTokenMetadata :: "ScssVariable list \<Rightarrow> ScssVariable list \<Rightarrow> string \<Rightarrow> GeneratedOutput \<Rightarrow> string \<Rightarrow> TokenMetadata" where
  "generateTokenMetadata themeVars globalVars theme generatedOutput generatedAt =
     (let componentCount = length (filter (\<lambda>v. layer v = Component) themeVars)
      in \<lparr>meta_theme = theme,
          meta_version = ''7.0.0'',
          meta_generatedAt = generatedAt,
          tokenCount =
            \<lparr>count_foundation = foundationCount generatedOutput,
             count_semantic = semanticCount generatedOutput,
             count_component = componentCount,
             count_total = foundationCount generatedOutput + semanticCount generatedOutput + componentCount,
             count_cssCustomProperties = totalCount generatedOutput\<rparr>,
          tokens_foundation = foundationEntries themeVars globalVars,
          tokens_semantic = semanticEntries themeVars\<rparr>)"

text \<open>\<open>applyResolvedValues\<close>: \<open>if (resolved)\<close> skips a value that is missing or empty.\<close>

definition applyResolvedValues :: "(string \<times> TokenEntry) list \<Rightarrow> (string \<times> string) list \<Rightarrow> (string \<times> TokenEntry) list" where
  "applyResolvedValues entries resolvedMap =
     map (\<lambda>(k, e). (k, case map_of resolvedMap (cssVariable e) of
                          None \<Rightarrow> e
                        | Some resolved \<Rightarrow> if resolved = [] then e else e\<lparr>resolvedValue := resolved\<rparr>))
         entries"

section \<open>The declaration form\<close>

text \<open>
  A line that the declaration expression matches, in its parts: a dollar sign, the name,
  a colon with optional white space before and after it, and the body, the rest of the
  line. Any other line is a line that the expression does not match.
\<close>

datatype source_line =
    Declaration string string string string
  | Other string

fun render_line :: "source_line \<Rightarrow> string" where
  "render_line (Declaration nm sp1 sp2 body) = ''$'' @ nm @ sp1 @ '':'' @ sp2 @ body"
| "render_line (Other s) = s"

definition is_name_char :: "char \<Rightarrow> bool" where
  "is_name_char c =
     (c \<in> set ''abcdefghijklmnopqrstuvwxyzABCDEFGHIJKLMNOPQRSTUVWXYZ0123456789_-'')"

text \<open>White space inside a line.\<close>

definition blank :: "string \<Rightarrow> bool" where
  "blank sp = list_all (\<lambda>c. is_space c \<and> c \<noteq> CHR 0x0A) sp"

text \<open>
  A declaration line is well formed when it is ASCII, its name is an identifier, and
  the body starts after all the white space that follows the colon, has no line
  terminator and holds a semicolon.
\<close>

fun well_formed :: "source_line \<Rightarrow> bool" where
  "well_formed (Declaration nm sp1 sp2 body) =
     (ascii (render_line (Declaration nm sp1 sp2 body))
      \<and> nm \<noteq> [] \<and> list_all is_name_char nm \<and> blank sp1 \<and> blank sp2
      \<and> body \<noteq> [] \<and> \<not> is_space (hd body)
      \<and> list_all (\<lambda>c. \<not> is_line_terminator c) body
      \<and> CHR '';'' \<in> set body)"
| "well_formed (Other s) = (ascii s \<and> CHR 0x0A \<notin> set s \<and> \<not> regex_test declaration_regex s)"

text \<open>
  What the parser makes of a body, written with plain functions on texts. The text
  before the last semicolon.
\<close>

definition before_last_semicolon :: "string \<Rightarrow> string" where
  "before_last_semicolon s = rev (drop 1 (dropWhile (\<lambda>c. c \<noteq> CHR '';'') (rev s)))"

text \<open>The text after the first two slashes, if there are any.\<close>

fun comment_part :: "string \<Rightarrow> string option" where
  "comment_part [] = None"
| "comment_part (c # cs) =
     (if take 2 (c # cs) = ''//'' then Some (drop 2 (c # cs)) else comment_part cs)"

text \<open>The text with the first two slashes and all that follows them taken away.\<close>

fun strip_comment :: "string \<Rightarrow> string" where
  "strip_comment [] = []"
| "strip_comment (c # cs) =
     (if take 2 (c # cs) = ''//'' then [] else c # strip_comment cs)"

text \<open>What follows the first two slashes of a body, trimmed; absent when there are no
  two slashes or nothing follows them.\<close>

definition inline_comment :: "string \<Rightarrow> string option" where
  "inline_comment body =
     (case comment_part body of
        None \<Rightarrow> None
      | Some t \<Rightarrow> if t = [] then None else Some (trim t))"

text \<open>
  The records that the parser returns for a line, given its number in the file (this is
  proved below): the value is the text before the last semicolon of the body, cut at
  the first two slashes wherever they stand, and the comment is what follows the first
  two slashes of the body.
\<close>

fun returned :: "nat \<times> source_line \<Rightarrow> ScssVariable list" where
  "returned (n, Declaration nm sp1 sp2 body) =
     [\<lparr>name = nm,
       rawValue = trim (strip_comment (before_last_semicolon body)),
       comment = inline_comment body,
       line = n,
       layer = classifyToken (''$'' @ nm) (trim (strip_comment (before_last_semicolon body)))\<rparr>]"
| "returned (n, Other s) = []"

text \<open>What the comment expression captures from the text after the two slashes: the
  text without its leading white space, or its last character when it is all white
  space.\<close>

definition capture_of :: "string \<Rightarrow> string" where
  "capture_of t = (if dropWhile is_space t = [] then [last t] else dropWhile is_space t)"

text \<open>The text without its trailing white space.\<close>

definition rtrim :: "string \<Rightarrow> string" where
  "rtrim s = rev (dropWhile is_space (rev s))"

text \<open>
  A line as the description of the parser has it: a declaration of a name with its
  value, a semicolon, and possibly an inline comment after two slashes; or a line that
  is no declaration. The parts of a declaration are the name, the white space before
  and after the colon, the value, the white space after the semicolon, and the text of
  the comment, if there is one.
\<close>

datatype described_line =
    Described string string string string string "string option"
  | Undescribed string

fun line_of :: "described_line \<Rightarrow> source_line" where
  "line_of (Described nm sp1 sp2 v sp3 cmt) =
     Declaration nm sp1 sp2
       (v @ '';'' @ sp3 @ (case cmt of None \<Rightarrow> [] | Some c \<Rightarrow> ''//'' @ c))"
| "line_of (Undescribed s) = Other s"

text \<open>
  The line is as described when it is well formed, the value holds no two slashes, and
  the comment, if there is one, holds a visible character and no semicolon.
\<close>

fun as_described :: "described_line \<Rightarrow> bool" where
  "as_described (Described nm sp1 sp2 v sp3 cmt) =
     (well_formed (line_of (Described nm sp1 sp2 v sp3 cmt))
      \<and> blank sp3
      \<and> \<not> includes_str v ''//''
      \<and> (case cmt of None \<Rightarrow> True | Some c \<Rightarrow> trim c \<noteq> [] \<and> CHR '';'' \<notin> set c))"
| "as_described (Undescribed s) = well_formed (Other s)"

text \<open>
  The records that the description expects of a line, given its number in the file: the
  name, the value trimmed, and the text of the comment trimmed, when there is one.
\<close>

fun expected :: "nat \<times> described_line \<Rightarrow> ScssVariable list" where
  "expected (n, Described nm sp1 sp2 v sp3 cmt) =
     [\<lparr>name = nm,
       rawValue = trim v,
       comment = map_option trim cmt,
       line = n,
       layer = classifyToken (''$'' @ nm) (trim v)\<rparr>]"
| "expected (n, Undescribed s) = []"

section \<open>The outside world\<close>

text \<open>A thrown \<open>Error\<close> object, with its message.\<close>

datatype js_error = Error string

fun message :: "js_error \<Rightarrow> string" where
  "message (Error m) = m"

text \<open>
  What the generator writes into a file: the SCSS text, the metadata of a theme (of
  which the file holds the JSON serialisation), or the consolidated object of all
  themes, which holds for every theme the text read back from its JSON file.
\<close>

datatype file_data =
    Scss string
  | MetadataJson TokenMetadata
  | AllThemesJson "(string \<times> string) list"

text \<open>
  The observable actions of the two scripts, in the order they perform them: calls of
  the file system, of child processes, of the Sass compiler and of the clock, and the
  messages of \<open>console.warn\<close>, \<open>console.error\<close> and of the spinner. The messages of
  \<open>console.log\<close> are left out. The answers of the outside world (does a file exist, does
  a call fail) are given by the environment as functions of everything done so far, so
  that they may change while the script runs.
\<close>

datatype effect =
    ExistsSync string
  | ExecFileSync string "string list"
  | ConsoleError string
  | SpinnerStart string
  | SpinnerSucceed string
  | SpinnerFail string
  | ConsoleWarn string
  | ReadFileSync string
  | WriteFileSync string file_data
  | MkdirSync string
  | ReaddirSync string
  | CopyFileSync string string
  | SassCompile string
  | NewDate

section \<open>scripts/build/css/build.js\<close>

record build_env =
  THEMES_TO_BUILD :: "string option"
  dirname :: string
  isWindows :: bool
  existsSync :: "effect list \<Rightarrow> string \<Rightarrow> bool"
  execFileSync :: "effect list \<Rightarrow> string \<Rightarrow> string list \<Rightarrow> js_error option"

definition allowedThemes :: "string list" where
  "allowedThemes =
     [''lumen'', ''portal'', ''connect'', ''test'', ''colt'', ''brightspeed'', ''centurylink'']"

definition themes :: "build_env \<Rightarrow> string list" where
  "themes env =
     (case THEMES_TO_BUILD env of
        None \<Rightarrow> allowedThemes
      | Some s \<Rightarrow> split_char CHR '','' s)"

text \<open>
  \<open>path.resolve(__dirname, 'dist', fileName)\<close>: \<open>__dirname\<close> is the absolute working
  directory and the two other segments are plain names, so the result is the three
  joined by the platform's separator.
\<close>

definition path_sep :: "build_env \<Rightarrow> string" where
  "path_sep env = (if isWindows env then [CHR 0x5C] else ''/'')"

definition path_resolve :: "build_env \<Rightarrow> string \<Rightarrow> string \<Rightarrow> string" where
  "path_resolve env d f = dirname env @ path_sep env @ d @ path_sep env @ f"

definition cssFileName :: "string \<Rightarrow> string" where
  "cssFileName theme = (if theme = ''lumen'' then ''chi.css'' else ''chi-'' @ theme @ ''.css'')"

definition deleteCommand :: "build_env \<Rightarrow> string \<Rightarrow> string \<times> string list" where
  "deleteCommand env filePath =
     (if isWindows env
      then (''cmd'', [''/c'', ''del'', ''/f'', [CHR 0x22] @ filePath @ [CHR 0x22]])
      else (''rm'', [''-f'', filePath]))"

text \<open>
  \<open>deleteCssFile\<close> takes the actions done so far and returns them extended, with the
  error it throws, if any.
\<close>

definition deleteCssFile :: "build_env \<Rightarrow> effect list \<Rightarrow> string \<Rightarrow> effect list \<times> js_error option" where
  "deleteCssFile env tr theme =
     (if theme \<notin> set allowedThemes
      then (tr, Some (Error (''[CHI]: Invalid theme: '' @ theme)))
      else
        let fileName = cssFileName theme;
            filePath = path_resolve env ''dist'' fileName;
            tr1 = tr @ [ExistsSync filePath]
        in if existsSync env tr filePath
           then
             (let cmd = deleteCommand env filePath;
                  tr2 = tr1 @ [ExecFileSync (fst cmd) (snd cmd)]
              in case execFileSync env tr1 (fst cmd) (snd cmd) of
                   None \<Rightarrow> (tr2, None)
                 | Some err \<Rightarrow>
                     (tr2 @ [ConsoleError (''[CHI]: Error deleting '' @ fileName @ '': '' @ message err)],
                      None))
           else (tr1, None))"

definition viteArgs :: "string \<Rightarrow> string list" where
  "viteArgs theme = [''THEME='' @ theme, ''vite'', ''build'', ''--c'', ''vite-css.config.ts'']"

definition buildTheme :: "build_env \<Rightarrow> effect list \<Rightarrow> string \<Rightarrow> effect list \<times> js_error option" where
  "buildTheme env tr theme =
     (let tr0 = tr @ [SpinnerStart (''[CHI]: Building '' @ theme @ '' theme (no file mutations)'')]
      in case deleteCssFile env tr0 theme of
           (tr1, Some err) \<Rightarrow>
             (tr1 @ [SpinnerFail (''[CHI]: Error during build for '' @ theme @ '' theme: '' @ message err)],
              Some err)
         | (tr1, None) \<Rightarrow>
             (let tr2 = tr1 @ [ExecFileSync ''cross-env'' (viteArgs theme)]
              in case execFileSync env tr1 ''cross-env'' (viteArgs theme) of
                   Some err \<Rightarrow>
                     (tr2 @ [SpinnerFail (''[CHI]: Error during build for '' @ theme @ '' theme: '' @ message err)],
                      Some err)
                 | None \<Rightarrow>
                     (tr2 @ [SpinnerSucceed (''[CHI]: Build for '' @ theme @ '' theme completed successfully'')],
                      None)))"

text \<open>The \<open>for\<close> loop of \<open>buildAllThemes\<close>: a rejected \<open>await\<close> leaves the loop.\<close>

fun buildAllThemes :: "build_env \<Rightarrow> effect list \<Rightarrow> string list \<Rightarrow> effect list \<times> js_error option" where
  "buildAllThemes env tr [] = (tr, None)"
| "buildAllThemes env tr (theme # rest) =
     (case buildTheme env tr theme of
        (tr', Some err) \<Rightarrow> (tr', Some err)
      | (tr', None) \<Rightarrow> buildAllThemes env tr' rest)"

text \<open>
  The script ends with the bare call \<open>buildAllThemes()\<close>: a rejection is unhandled and
  Node ends the process with exit code 1; otherwise the exit code is 0.
\<close>

definition build_main :: "build_env \<Rightarrow> effect list \<times> nat" where
  "build_main env =
     (case buildAllThemes env [] (themes env) of
        (tr, None) \<Rightarrow> (tr, 0)
      | (tr, Some err) \<Rightarrow> (tr, 1))"

section \<open>scripts/generate-css-custom-properties.ts: the command line and main\<close>

text \<open>
  How a piece of the script ends: it returns a value, it throws, or it ends the process
  with \<open>process.exit\<close>. A piece of the script takes the actions done so far and returns
  them extended, with the way it ended.
\<close>

datatype 'a completion = Returned 'a | Thrown js_error | Exit nat

type_synonym 'a io = "effect list \<Rightarrow> effect list \<times> 'a completion"

definition return_io :: "'a \<Rightarrow> 'a io" where
  "return_io x tr = (tr, Returned x)"

text \<open>One statement after another: the second runs only when the first has returned.\<close>

definition bind_io :: "'a io \<Rightarrow> ('a \<Rightarrow> 'b io) \<Rightarrow> 'b io" where
  "bind_io m f tr =
     (case m tr of
        (tr', Returned x) \<Rightarrow> f x tr'
      | (tr', Thrown err) \<Rightarrow> (tr', Thrown err)
      | (tr', Exit code) \<Rightarrow> (tr', Exit code))"

text \<open>
  The outside world of the generator: its command line, the directory of the script,
  the clock, the file system, the Sass compiler and \<open>JSON.parse\<close>. \<open>sass_compile\<close> answers
  for the whole body of the \<open>try\<close> block of \<open>resolveTokenValues\<close>: the error thrown by
  \<open>sass.compile\<close>, or the map of the custom properties extracted from the compiled CSS,
  as the list of its entries. \<open>JSON_parse\<close> gives the error that \<open>JSON.parse\<close> throws on a
  text, if any.
\<close>

record gen_env =
  argv :: "string list"
  import_meta_dirname :: string
  Date_toISOString :: "effect list \<Rightarrow> string"
  fs_existsSync :: "effect list \<Rightarrow> string \<Rightarrow> bool"
  fs_readFileSync :: "effect list \<Rightarrow> string \<Rightarrow> js_error + string"
  fs_writeFileSync :: "effect list \<Rightarrow> string \<Rightarrow> file_data \<Rightarrow> js_error option"
  fs_mkdirSync :: "effect list \<Rightarrow> string \<Rightarrow> js_error option"
  fs_readdirSync :: "effect list \<Rightarrow> string \<Rightarrow> js_error + string list"
  fs_copyFileSync :: "effect list \<Rightarrow> string \<Rightarrow> string \<Rightarrow> js_error option"
  sass_compile :: "effect list \<Rightarrow> string \<Rightarrow> js_error + (string \<times> string) list"
  JSON_parse :: "string \<Rightarrow> js_error option"

definition exists_file :: "gen_env \<Rightarrow> string \<Rightarrow> bool io" where
  "exists_file env p tr = (tr @ [ExistsSync p], Returned (fs_existsSync env tr p))"

definition read_file :: "gen_env \<Rightarrow> string \<Rightarrow> string io" where
  "read_file env p tr =
     (tr @ [ReadFileSync p],
      case fs_readFileSync env tr p of Inl err \<Rightarrow> Thrown err | Inr content \<Rightarrow> Returned content)"

definition write_file :: "gen_env \<Rightarrow> string \<Rightarrow> file_data \<Rightarrow> unit io" where
  "write_file env p d tr =
     (tr @ [WriteFileSync p d],
      case fs_writeFileSync env tr p d of Some err \<Rightarrow> Thrown err | None \<Rightarrow> Returned ())"

definition make_dir :: "gen_env \<Rightarrow> string \<Rightarrow> unit io" where
  "make_dir env p tr =
     (tr @ [MkdirSync p],
      case fs_mkdirSync env tr p of Some err \<Rightarrow> Thrown err | None \<Rightarrow> Returned ())"

definition read_dir :: "gen_env \<Rightarrow> string \<Rightarrow> string list io" where
  "read_dir env p tr =
     (tr @ [ReaddirSync p],
      case fs_readdirSync env tr p of Inl err \<Rightarrow> Thrown err | Inr files \<Rightarrow> Returned files)"

definition copy_file :: "gen_env \<Rightarrow> string \<Rightarrow> string \<Rightarrow> unit io" where
  "copy_file env p q tr =
     (tr @ [CopyFileSync p q],
      case fs_copyFileSync env tr p q of Some err \<Rightarrow> Thrown err | None \<Rightarrow> Returned ())"

definition json_parse :: "gen_env \<Rightarrow> string \<Rightarrow> unit io" where
  "json_parse env content tr =
     (tr, case JSON_parse env content of Some err \<Rightarrow> Thrown err | None \<Rightarrow> Returned ())"

definition new_date :: "gen_env \<Rightarrow> string io" where
  "new_date env tr = (tr @ [NewDate], Returned (Date_toISOString env tr))"

definition console_warn :: "string \<Rightarrow> unit io" where
  "console_warn m tr = (tr @ [ConsoleWarn m], Returned ())"

definition console_error :: "string \<Rightarrow> unit io" where
  "console_error m tr = (tr @ [ConsoleError m], Returned ())"

definition process_exit :: "nat \<Rightarrow> 'a io" where
  "process_exit code tr = (tr, Exit code)"

text \<open>
  Paths are POSIX paths, and \<open>import.meta.dirname\<close> is absolute and normalised:
  \<open>path_up\<close> is \<open>path.resolve(p, '..')\<close> and \<open>path_join\<close> adds one plain segment.
\<close>

definition path_up :: "string \<Rightarrow> string" where
  "path_up p =
     (let q = rev (drop 1 (dropWhile (\<lambda>c. c \<noteq> CHR ''/'') (rev p)))
      in if q = [] then ''/'' else q)"

definition path_join :: "string \<Rightarrow> string \<Rightarrow> string" where
  "path_join d f = (if d = ''/'' then d @ f else d @ ''/'' @ f)"

definition THEMES :: "string list" where
  "THEMES = [''lumen'', ''connect'', ''brightspeed'', ''centurylink'', ''colt'', ''portal'']"

definition LAYERS :: "string list" where
  "LAYERS = [''foundation'', ''semantic'']"

definition SRC_ROOT :: "gen_env \<Rightarrow> string" where
  "SRC_ROOT env = path_join (path_join (path_up (import_meta_dirname env)) ''src'') ''chi''"

definition THEMES_DIR :: "gen_env \<Rightarrow> string" where
  "THEMES_DIR env = path_join (SRC_ROOT env) ''themes''"

definition GLOBAL_VARS_FILE :: "gen_env \<Rightarrow> string" where
  "GLOBAL_VARS_FILE env = path_join (SRC_ROOT env) ''_global-variables.scss''"

definition DIST_TOKENS_DIR :: "gen_env \<Rightarrow> string" where
  "DIST_TOKENS_DIR env = path_join (path_join (path_up (import_meta_dirname env)) ''dist'') ''tokens''"

text \<open>The warning sign of the script's two warnings, in UTF-8.\<close>

definition warning_sign :: string where
  "warning_sign = [CHR 0xE2, CHR 0x9A, CHR 0xA0]"

text \<open>\<open>xs.join(', ')\<close>.\<close>

fun join_comma :: "string list \<Rightarrow> string" where
  "join_comma [] = []"
| "join_comma [x] = x"
| "join_comma (x # y # ys) = x @ '', '' @ join_comma (y # ys)"

text \<open>
  \<open>resolveTokenValues\<close>: an error of the compiler is caught, reported by \<open>console.warn\<close>,
  and the map returned is empty.
\<close>

definition resolve_message :: "string \<Rightarrow> js_error \<Rightarrow> string" where
  "resolve_message theme err =
     ''     '' @ warning_sign @ '' Failed to resolve values for '' @ theme @ '': '' @ message err"

definition resolveTokenValues :: "gen_env \<Rightarrow> string \<Rightarrow> (string \<times> string) list io" where
  "resolveTokenValues env theme tr =
     (let themeDir = path_join (THEMES_DIR env) theme;
          scssPath = path_join themeDir ''css-variables.scss'';
          tr1 = tr @ [SassCompile scssPath]
      in case sass_compile env tr scssPath of
           Inr resolved \<Rightarrow> (tr1, Returned resolved)
         | Inl err \<Rightarrow> (tr1 @ [ConsoleWarn (resolve_message theme err)], Returned []))"

text \<open>
  \<open>parseArgs\<close>. The layers kept are those of \<open>LAYERS\<close>, written here as values of the
  type of layers. A theme or layer argument starts with the option and its equals sign,
  so that the split at the equals sign has a second part.
\<close>

record cli_args =
  cli_themes :: "string list"
  cli_layers :: "layer list"
  jsonOnly :: bool
  dryRun :: bool

definition layer_of :: "string \<Rightarrow> layer" where
  "layer_of l = (if l = ''foundation'' then Foundation else Semantic)"

definition unknown_theme_message :: "string \<Rightarrow> string" where
  "unknown_theme_message t = ''Unknown theme: '' @ t @ ''. Available: '' @ join_comma THEMES"

fun parse_args_loop :: "string list \<Rightarrow> cli_args \<Rightarrow> cli_args io" where
  "parse_args_loop [] a = return_io a"
| "parse_args_loop (arg # rest) a =
     (if startsWith arg ''--theme='' then
        (let t = split_char CHR ''='' arg ! 1
         in if t \<in> set THEMES
            then parse_args_loop rest (a\<lparr>cli_themes := [t]\<rparr>)
            else bind_io (console_error (unknown_theme_message t)) (\<lambda>u. process_exit 1))
      else if startsWith arg ''--layers='' then
        (let layerArg = split_char CHR '','' (split_char CHR ''='' arg ! 1)
         in parse_args_loop rest
              (a\<lparr>cli_layers := map layer_of (filter (\<lambda>l. l \<in> set LAYERS) layerArg)\<rparr>))
      else if arg = ''--json-only'' then parse_args_loop rest (a\<lparr>jsonOnly := True\<rparr>)
      else if arg = ''--dry-run'' then parse_args_loop rest (a\<lparr>dryRun := True\<rparr>)
      else if arg = ''--help'' \<or> arg = ''-h'' then process_exit 0
      else parse_args_loop rest a)"

definition parseArgs :: "gen_env \<Rightarrow> cli_args io" where
  "parseArgs env =
     parse_args_loop (argv env)
       \<lparr>cli_themes = THEMES, cli_layers = map layer_of LAYERS, jsonOnly = False, dryRun = False\<rparr>"

text \<open>The files of a theme.\<close>

definition varsFile :: "gen_env \<Rightarrow> string \<Rightarrow> string" where
  "varsFile env theme = path_join (path_join (THEMES_DIR env) theme) ''_variables.scss''"

definition scssPath_of :: "gen_env \<Rightarrow> string \<Rightarrow> string" where
  "scssPath_of env theme = path_join (path_join (THEMES_DIR env) theme) ''css-variables.scss''"

definition jsonPath_of :: "gen_env \<Rightarrow> string \<Rightarrow> string" where
  "jsonPath_of env theme = path_join (DIST_TOKENS_DIR env) (theme @ ''.json'')"

definition missing_message :: "gen_env \<Rightarrow> string \<Rightarrow> string" where
  "missing_message env theme =
     ''   '' @ warning_sign @ '' Theme '' @ [CHR 0x22] @ theme @ [CHR 0x22]
     @ '' variables file not found: '' @ varsFile env theme"

text \<open>
  The body of the loop of \<open>main\<close> for a theme whose variables file exists. The clock is
  read once by \<open>generateCssVariablesScss\<close> and once by \<open>generateTokenMetadata\<close>.
\<close>

definition process_theme :: "gen_env \<Rightarrow> cli_args \<Rightarrow> ScssVariable list \<Rightarrow> string \<Rightarrow> unit io" where
  "process_theme env a globalVars theme =
     bind_io (read_file env (varsFile env theme)) (\<lambda>content.
     bind_io (new_date env) (\<lambda>stamp1.
     bind_io (new_date env) (\<lambda>stamp2.
       let themeVars = parseScssVariables content;
           output = generateCssVariablesScss themeVars globalVars theme (cli_layers a) stamp1;
           metadata = generateTokenMetadata themeVars globalVars theme output stamp2
       in if dryRun a then return_io ()
          else
            bind_io (if \<not> jsonOnly a
                     then write_file env (scssPath_of env theme) (Scss (scss output))
                     else return_io ()) (\<lambda>u.
            bind_io (resolveTokenValues env theme) (\<lambda>resolvedMap.
            bind_io (make_dir env (DIST_TOKENS_DIR env)) (\<lambda>u.
            write_file env (jsonPath_of env theme)
              (MetadataJson
                 (if resolvedMap \<noteq> []
                  then metadata
                         \<lparr>tokens_foundation := applyResolvedValues (tokens_foundation metadata) resolvedMap,
                          tokens_semantic := applyResolvedValues (tokens_semantic metadata) resolvedMap\<rparr>
                  else metadata))))))))"

text \<open>The loop of \<open>main\<close> over the themes: a theme without variables file is reported
  and skipped.\<close>

fun process_themes :: "gen_env \<Rightarrow> cli_args \<Rightarrow> ScssVariable list \<Rightarrow> string list \<Rightarrow> unit io" where
  "process_themes env a globalVars [] = return_io ()"
| "process_themes env a globalVars (theme # rest) =
     bind_io (exists_file env (varsFile env theme)) (\<lambda>present.
       if \<not> present
       then bind_io (console_warn (missing_message env theme))
              (\<lambda>u. process_themes env a globalVars rest)
       else bind_io (process_theme env a globalVars theme)
              (\<lambda>u. process_themes env a globalVars rest))"

text \<open>The consolidated file: the JSON files of the themes that exist are read back.\<close>

fun collect_themes :: "gen_env \<Rightarrow> string list \<Rightarrow> (string \<times> string) list \<Rightarrow> (string \<times> string) list io" where
  "collect_themes env [] allThemes = return_io allThemes"
| "collect_themes env (theme # rest) allThemes =
     bind_io (exists_file env (jsonPath_of env theme)) (\<lambda>present.
       if present
       then bind_io (read_file env (jsonPath_of env theme)) (\<lambda>content.
            bind_io (json_parse env content) (\<lambda>u.
              collect_themes env rest (AList.update theme content allThemes)))
       else collect_themes env rest allThemes)"

text \<open>The copy of the token files into the documentation repositories that exist.\<close>

definition DOCS_REPOS :: "string list" where
  "DOCS_REPOS = [''matt-chi-documentation'', ''chi-documentation'']"

fun copy_files :: "gen_env \<Rightarrow> string \<Rightarrow> string list \<Rightarrow> unit io" where
  "copy_files env docsTokensDir [] = return_io ()"
| "copy_files env docsTokensDir (file # rest) =
     bind_io (copy_file env (path_join (DIST_TOKENS_DIR env) file) (path_join docsTokensDir file))
       (\<lambda>u. copy_files env docsTokensDir rest)"

fun sync_docs :: "gen_env \<Rightarrow> string list \<Rightarrow> unit io" where
  "sync_docs env [] = return_io ()"
| "sync_docs env (docsDir # rest) =
     (let docsRoot = path_join (path_up (path_up (import_meta_dirname env))) docsDir;
          docsTokensDir = path_join (path_join docsRoot ''public'') ''tokens''
      in bind_io (exists_file env docsRoot) (\<lambda>present.
           if present
           then bind_io (make_dir env docsTokensDir) (\<lambda>u.
                bind_io (read_dir env (DIST_TOKENS_DIR env)) (\<lambda>files.
                bind_io (copy_files env docsTokensDir files) (\<lambda>u.
                  sync_docs env rest)))
           else sync_docs env rest))"

text \<open>\<open>main\<close>.\<close>

definition main :: "gen_env \<Rightarrow> unit io" where
  "main env =
     bind_io (parseArgs env) (\<lambda>a.
     bind_io (read_file env (GLOBAL_VARS_FILE env)) (\<lambda>content.
     bind_io (process_themes env a (parseScssVariables content) (cli_themes a)) (\<lambda>u.
       if \<not> dryRun a \<and> length (cli_themes a) = length THEMES
       then bind_io (collect_themes env (cli_themes a) []) (\<lambda>allThemes.
            bind_io (write_file env (path_join (DIST_TOKENS_DIR env) ''all-themes.json'')
                       (AllThemesJson allThemes)) (\<lambda>u.
              sync_docs env DOCS_REPOS))
       else return_io ())))"

text \<open>
  The script ends with \<open>main().catch(...)\<close>: from the actions of the run to its actions
  and the exit code of the process. A rejection is reported by \<open>console.error\<close> (of which
  the text is shortened here to the message of the error) and the process ends with
  exit code 1; a run that returns ends with exit code 0.
\<close>

definition run_generator :: "gen_env \<Rightarrow> effect list \<times> nat" where
  "run_generator env =
     (case main env [] of
        (tr, Returned u) \<Rightarrow> (tr, 0)
      | (tr, Thrown err) \<Rightarrow> (tr @ [ConsoleError (''Error: '' @ message err)], 1)
      | (tr, Exit code) \<Rightarrow> (tr, code))"


section \<open>Observations on runs\<close>

text \<open>What a run has reported, read from its actions.\<close>

definition error_reported :: "effect list \<Rightarrow> bool" where
  "error_reported tr = list_ex (\<lambda>e. case e of ConsoleError m \<Rightarrow> True | _ \<Rightarrow> False) tr"

definition spinner_failed :: "effect list \<Rightarrow> bool" where
  "spinner_failed tr = list_ex (\<lambda>e. case e of SpinnerFail m \<Rightarrow> True | _ \<Rightarrow> False) tr"

text \<open>The texts with which the spinner was started, in their order.\<close>

definition started :: "effect list \<Rightarrow> string list" where
  "started tr = concat (map (\<lambda>e. case e of SpinnerStart m \<Rightarrow> [m] | _ \<Rightarrow> []) tr)"

definition start_message :: "string \<Rightarrow> string" where
  "start_message theme = ''[CHI]: Building '' @ theme @ '' theme (no file mutations)''"

definition fail_message :: "string \<Rightarrow> js_error \<Rightarrow> string" where
  "fail_message theme err = ''[CHI]: Error during build for '' @ theme @ '' theme: '' @ message err"




text \<open>No call of the file system throws, whenever it is made.\<close>

definition never_throws :: "gen_env \<Rightarrow> bool" where
  "never_throws env =
     ((\<forall>tr p. \<exists>content. fs_readFileSync env tr p = Inr content)
      \<and> (\<forall>tr p d. fs_writeFileSync env tr p d = None)
      \<and> (\<forall>tr p. fs_mkdirSync env tr p = None)
      \<and> (\<forall>tr p. \<exists>files. fs_readdirSync env tr p = Inr files)
      \<and> (\<forall>tr p q. fs_copyFileSync env tr p q = None))"

text \<open>
  The error thrown by the statement of the generator that performs an action, given the
  actions done before it: the error with which the file system answers the call, and
  for the metadata file of a theme, which is read back to be parsed, also the error of
  \<open>JSON.parse\<close> on the content read. The call of the Sass compiler is not among them:
  its error is caught.
\<close>

definition failure :: "gen_env \<Rightarrow> effect list \<Rightarrow> effect \<Rightarrow> js_error option" where
  "failure env tr e =
     (case e of
        ReadFileSync p \<Rightarrow>
          (case fs_readFileSync env tr p of
             Inl err \<Rightarrow> Some err
           | Inr content \<Rightarrow>
               if p \<in> set (map (jsonPath_of env) THEMES) then JSON_parse env content else None)
      | WriteFileSync p d \<Rightarrow> fs_writeFileSync env tr p d
      | MkdirSync p \<Rightarrow> fs_mkdirSync env tr p
      | ReaddirSync p \<Rightarrow>
          (case fs_readdirSync env tr p of Inl err \<Rightarrow> Some err | Inr files \<Rightarrow> None)
      | CopyFileSync p q \<Rightarrow> fs_copyFileSync env tr p q
      | _ \<Rightarrow> None)"

text \<open>The errors thrown along the actions \<open>ext\<close> that follow the actions \<open>tr\<close>.\<close>

fun failures :: "gen_env \<Rightarrow> effect list \<Rightarrow> effect list \<Rightarrow> js_error list" where
  "failures env tr [] = []"
| "failures env tr (e # ext) =
     (case failure env tr e of Some err \<Rightarrow> [err] | None \<Rightarrow> []) @ failures env (tr @ [e]) ext"

text \<open>
  What follows a failed call of the Sass compiler for a theme: the warning with the
  message of the error, then the creation of the directory of the metadata files, and,
  unless that throws, the writing of the metadata of the theme.
\<close>

definition goes_on :: "gen_env \<Rightarrow> effect list \<Rightarrow> string \<Rightarrow> js_error \<Rightarrow> effect list \<Rightarrow> bool" where
  "goes_on env tr theme err ext =
     (case ext of
        ConsoleWarn m # MkdirSync d # rest \<Rightarrow>
          m = resolve_message theme err \<and> d = DIST_TOKENS_DIR env
          \<and> (case fs_mkdirSync env (tr @ [ConsoleWarn m]) d of
               Some thrown \<Rightarrow> True
             | None \<Rightarrow>
                 (case rest of
                    WriteFileSync q (MetadataJson md) # rest' \<Rightarrow> q = jsonPath_of env theme
                  | _ \<Rightarrow> False))
      | _ \<Rightarrow> False)"

text \<open>Every failed call of the Sass compiler along the actions \<open>ext\<close> that follow the
  actions \<open>tr\<close> is a call for a theme and is followed in this way.\<close>

fun sass_failures_reported :: "gen_env \<Rightarrow> effect list \<Rightarrow> effect list \<Rightarrow> bool" where
  "sass_failures_reported env tr [] = True"
| "sass_failures_reported env tr (e # ext) =
     ((case e of
         SassCompile p \<Rightarrow>
           (case sass_compile env tr p of
              Inl err \<Rightarrow>
                list_ex (\<lambda>theme. p = scssPath_of env theme \<and> goes_on env (tr @ [e]) theme err ext)
                  THEMES
            | Inr resolved \<Rightarrow> True)
       | _ \<Rightarrow> True)
      \<and> sass_failures_reported env (tr @ [e]) ext)"

text \<open>
  The same for the build script. The error with which a build command of a theme
  answers, and the errors along the actions of a run.
\<close>

definition build_failure :: "build_env \<Rightarrow> effect list \<Rightarrow> effect \<Rightarrow> js_error option" where
  "build_failure env tr e =
     (case e of
        ExecFileSync c args \<Rightarrow> if c = ''cross-env'' then execFileSync env tr c args else None
      | _ \<Rightarrow> None)"

fun build_failures :: "build_env \<Rightarrow> effect list \<Rightarrow> effect list \<Rightarrow> js_error list" where
  "build_failures env tr [] = []"
| "build_failures env tr (e # ext) =
     (case build_failure env tr e of Some err \<Rightarrow> [err] | None \<Rightarrow> [])
     @ build_failures env (tr @ [e]) ext"

text \<open>
  The error with which a command that deletes a file answers. Every such error along
  the actions of a run is followed by its report on the console and by the build
  command of the theme.
\<close>

definition delete_failure :: "build_env \<Rightarrow> effect list \<Rightarrow> effect \<Rightarrow> js_error option" where
  "delete_failure env tr e =
     (case e of
        ExecFileSync c args \<Rightarrow> if c \<noteq> ''cross-env'' then execFileSync env tr c args else None
      | _ \<Rightarrow> None)"

definition build_goes_on :: "string \<Rightarrow> js_error \<Rightarrow> effect list \<Rightarrow> bool" where
  "build_goes_on theme err ext =
     (case ext of
        ConsoleError m # ExecFileSync c args # rest \<Rightarrow>
          m = ''[CHI]: Error deleting '' @ cssFileName theme @ '': '' @ message err
          \<and> c = ''cross-env'' \<and> args = viteArgs theme
      | _ \<Rightarrow> False)"

fun delete_failures_reported :: "build_env \<Rightarrow> effect list \<Rightarrow> effect list \<Rightarrow> bool" where
  "delete_failures_reported env tr [] = True"
| "delete_failures_reported env tr (e # ext) =
     ((case delete_failure env tr e of
         Some err \<Rightarrow> list_ex (\<lambda>theme. build_goes_on theme err ext) allowedThemes
       | None \<Rightarrow> True)
      \<and> delete_failures_reported env (tr @ [e]) ext)"

text \<open>The message of the error that \<open>deleteCssFile\<close> throws.\<close>

definition invalid_theme :: "string \<Rightarrow> js_error" where
  "invalid_theme theme = Error (''[CHI]: Invalid theme: '' @ theme)"

text \<open>
  Properties of a piece of the generator, used to follow a run through its pieces: it
  reports no error on the console and does not end the process; it returns; it throws
  exactly the error of its last action, and no other action of it fails; the failed
  calls of the Sass compiler among its actions are followed as said above.
\<close>

definition calm :: "'a io \<Rightarrow> bool" where
  "calm m =
     (\<forall>tr tr' r. m tr = (tr', r) \<longrightarrow>
        (\<exists>ext. tr' = tr @ ext \<and> \<not> error_reported ext) \<and> (\<forall>code. r \<noteq> Exit code))"


definition settled :: "gen_env \<Rightarrow> effect list \<Rightarrow> effect list \<Rightarrow> 'a completion \<Rightarrow> bool" where
  "settled env tr ext r =
     (case r of
        Thrown err \<Rightarrow>
          ext \<noteq> [] \<and> failures env tr (butlast ext) = []
          \<and> failure env (tr @ butlast ext) (last ext) = Some err
      | _ \<Rightarrow> failures env tr ext = [])"

definition accountable :: "gen_env \<Rightarrow> 'a io \<Rightarrow> bool" where
  "accountable env m =
     (\<forall>tr tr' r. m tr = (tr', r) \<longrightarrow> (\<exists>ext. tr' = tr @ ext \<and> settled env tr ext r))"

definition heedful :: "gen_env \<Rightarrow> 'a io \<Rightarrow> bool" where
  "heedful env m =
     (\<forall>tr tr' r. m tr = (tr', r) \<longrightarrow>
        (\<exists>ext. tr' = tr @ ext \<and> sass_failures_reported env tr ext))"


section \<open>The Popover component\<close>

text \<open>
  The popover's fields that \<open>show\<close>, \<open>hide\<close> and \<open>toggle\<close> read or write. What they do
  to the document (events dispatched on the trigger element, classes, attributes and
  styles of the popover element, animations handed to \<open>Util.threeStepsAnimation\<close>) is
  recorded in \<open>dom\<close> in the order of the calls; the animation callbacks run later and
  write only to the popover element.
\<close>

datatype chi_class = ACTIVE | TRANSITIONING

datatype dom_action =
    DispatchEvent string
  | AddClass chi_class
  | RemoveClass chi_class
  | SetAttribute string string
  | SetStyleTransition string
  | UpdatePositionThenShowAnimation
  | HideAnimation

record popover =
  shown :: bool
  lastActioned :: "nat option"
  animate :: bool
  delayBetweenInteractions :: int
  dom :: "dom_action list"

text \<open>
  \<open>allowConsecutiveActions\<close> reads the clock (\<open>nowInMillis\<close>) and, when it allows the
  action, writes it to \<open>lastActioned\<close>. \<open>!this.lastActioned\<close> holds when the field is
  undefined or 0.
\<close>

definition allowConsecutiveActions :: "popover \<Rightarrow> nat \<Rightarrow> bool \<times> popover" where
  "allowConsecutiveActions p nowInMillis =
     (case lastActioned p of
        None \<Rightarrow> (True, p\<lparr>lastActioned := Some nowInMillis\<rparr>)
      | Some prev \<Rightarrow>
          if prev = 0 then (True, p\<lparr>lastActioned := Some nowInMillis\<rparr>)
          else if int nowInMillis - int prev > delayBetweenInteractions p
          then (True, p\<lparr>lastActioned := Some nowInMillis\<rparr>)
          else (False, p))"

text \<open>
  \<open>this._shown || (!this.allowConsecutiveActions() && !force)\<close>: the clock is read only
  when the popover is not shown, and \<open>force\<close> only when the action is not allowed.
\<close>

definition show_popover :: "popover \<Rightarrow> nat \<Rightarrow> bool \<Rightarrow> popover" where
  "show_popover p nowInMillis force =
     (if shown p then p
      else
        case allowConsecutiveActions p nowInMillis of
          (allowed, p1) \<Rightarrow>
            if \<not> allowed \<and> \<not> force then p1
            else
              let p2 = p1\<lparr>shown := True,
                           dom := dom p1 @ [DispatchEvent ''chi.popover.show'',
                                            DispatchEvent ''chiPopoverShow'']\<rparr>
              in if \<not> animate p2
                 then p2\<lparr>dom := dom p2 @ [AddClass ACTIVE, SetAttribute ''aria-hidden'' ''false'']\<rparr>
                 else p2\<lparr>dom := dom p2 @ [SetStyleTransition ''none'', AddClass TRANSITIONING,
                                            UpdatePositionThenShowAnimation]\<rparr>)"

definition hide_popover :: "popover \<Rightarrow> nat \<Rightarrow> bool \<Rightarrow> popover" where
  "hide_popover p nowInMillis force =
     (if \<not> shown p then p
      else
        case allowConsecutiveActions p nowInMillis of
          (allowed, p1) \<Rightarrow>
            if \<not> allowed \<and> \<not> force then p1
            else
              let p2 = p1\<lparr>shown := False,
                           dom := dom p1 @ [DispatchEvent ''chi.popover.hide'',
                                            DispatchEvent ''chiPopoverHide'']\<rparr>
              in if \<not> animate p2
                 then p2\<lparr>dom := dom p2 @ [RemoveClass ACTIVE, SetAttribute ''aria-hidden'' ''true'']\<rparr>
                 else p2\<lparr>dom := dom p2 @ [HideAnimation]\<rparr>)"

text \<open>\<open>toggle\<close> calls \<open>hide()\<close> or \<open>show()\<close> with no argument: \<open>force\<close> is undefined.\<close>

definition toggle :: "popover \<Rightarrow> nat \<Rightarrow> popover" where
  "toggle p nowInMillis =
     (if shown p then hide_popover p nowInMillis False
      else show_popover p nowInMillis False)"

section \<open>Example inputs\<close>

text \<open>Concrete environments and values at which the theorems below are instantiated.\<close>

definition posix_env :: build_env where
  "posix_env =
     \<lparr>THEMES_TO_BUILD = None, dirname = ''/chi'', isWindows = False,
      existsSync = (\<lambda>tr p. True), execFileSync = (\<lambda>tr c args. None)\<rparr>"

definition example_file :: "source_line list" where
  "example_file =
     [Other ''// Typography'',
      Declaration ''font-size-base'' [] '' '' ''1rem; // base size'',
      Other [],
      Declaration ''color-text-base'' '' '' '' '' ''$color-grey-90;'',
      Declaration ''link-note'' [] '' '' ''url(a;b) ; // see x; y'']"

definition described_file :: "described_line list" where
  "described_file =
     [Undescribed ''// Typography'',
      Described ''font-size-base'' [] '' '' ''1rem'' '' '' (Some '' base size''),
      Described ''link-note'' '' '' '' '' ''url(a;b)'' [] None]"

definition global_file :: string where
  "global_file = ''$color-grey-90: #111; // darkest\<newline>$base-unit: 0.5rem;''"

definition theme_file :: string where
  "theme_file = ''$color-text-base: $color-grey-90; // Body text\<newline>$color-grey-90: #222;\<newline>$button-height: 2rem;''"

definition twice_file :: string where
  "twice_file = ''$color-text-a: #111;\<newline>$color-text-a: #222;''"

definition example_stamp :: string where
  "example_stamp = ''2026-01-01T00:00:00.000Z''"

definition grey_90 :: ScssVariable where
  "grey_90 = \<lparr>name = ''color-grey-90'', rawValue = ''#222'', comment = None, line = 2, layer = Foundation\<rparr>"

definition text_base :: ScssVariable where
  "text_base = \<lparr>name = ''color-text-base'', rawValue = ''$color-grey-90'', comment = Some ''Body text'',
                 line = 1, layer = Semantic\<rparr>"

definition example_output :: GeneratedOutput where
  "example_output =
     generateCssVariablesScss (parseScssVariables theme_file) (parseScssVariables global_file)
       ''lumen'' [Foundation, Semantic] example_stamp"

definition rm_fails_env :: build_env where
  "rm_fails_env =
     \<lparr>THEMES_TO_BUILD = Some ''lumen,portal'', dirname = ''/chi'', isWindows = False,
      existsSync = (\<lambda>tr p. True),
      execFileSync = (\<lambda>tr c args. if c = ''rm'' then Some (Error ''EPERM'') else None)\<rparr>"

definition vite_fails_env :: build_env where
  "vite_fails_env =
     \<lparr>THEMES_TO_BUILD = Some ''lumen,portal'', dirname = ''/chi'', isWindows = False,
      existsSync = (\<lambda>tr p. True),
      execFileSync = (\<lambda>tr c args. if c = ''cross-env'' then Some (Error ''Command failed'') else None)\<rparr>"

definition sass_fails_env :: gen_env where
  "sass_fails_env =
     \<lparr>argv = [''--theme=lumen''], import_meta_dirname = ''/chi/scripts'',
      Date_toISOString = (\<lambda>tr. example_stamp),
      fs_existsSync = (\<lambda>tr p. True),
      fs_readFileSync = (\<lambda>tr p. Inr (if p = ''/chi/src/chi/_global-variables.scss''
                                        then global_file else theme_file)),
      fs_writeFileSync = (\<lambda>tr p d. None),
      fs_mkdirSync = (\<lambda>tr p. None),
      fs_readdirSync = (\<lambda>tr p. Inr []),
      fs_copyFileSync = (\<lambda>tr p q. None),
      sass_compile = (\<lambda>tr p. Inl (Error ''Undefined variable.'')),
      JSON_parse = (\<lambda>content. None)\<rparr>"

definition unknown_theme_env :: gen_env where
  "unknown_theme_env = sass_fails_env\<lparr>argv := [''--theme=acme'']\<rparr>"


text \<open>
  A build of lumen and of a theme that is not allowed; a run of the generator in which
  no file can be read; a run of the generator for all themes in which no theme has a
  variables file, and the metadata file of lumen, left by an earlier run, holds a text
  that \<open>JSON.parse\<close> rejects.
\<close>

definition invalid_theme_env :: build_env where
  "invalid_theme_env =
     \<lparr>THEMES_TO_BUILD = Some ''lumen,acme'', dirname = ''/chi'', isWindows = False,
      existsSync = (\<lambda>tr p. False), execFileSync = (\<lambda>tr c args. None)\<rparr>"

definition global_missing_env :: gen_env where
  "global_missing_env =
     sass_fails_env\<lparr>fs_readFileSync := (\<lambda>tr p. Inl (Error ''ENOENT: no such file or directory''))\<rparr>"



definition fresh_popover :: popover where
  "fresh_popover =
     \<lparr>shown = False, lastActioned = None, animate = False, delayBetweenInteractions = 50, dom = []\<rparr>"

section \<open>Properties of the string functions\<close>

lemma startsWith_prefix: "startsWith s p \<longleftrightarrow> prefix p s"
  by (induction s p rule: startsWith.induct) auto

lemma includes_str_iff: "includes_str s sub \<longleftrightarrow> (\<exists>pre post. s = pre @ sub @ post)"
proof (induction s)
  case Nil
  then show ?case by auto
next
  case (Cons c cs)
  show ?case
  proof
    assume "includes_str (c # cs) sub"
    then consider "prefix sub (c # cs)" | "includes_str cs sub"
      by (auto simp: startsWith_prefix)
    then show "\<exists>pre post. c # cs = pre @ sub @ post"
    proof cases
      case 1
      then obtain post where "c # cs = sub @ post" by (auto simp: prefix_def)
      then have "c # cs = [] @ sub @ post" by simp
      then show ?thesis by blast
    next
      case 2
      with Cons obtain pre post where "cs = pre @ sub @ post" by blast
      then have "c # cs = (c # pre) @ sub @ post" by simp
      then show ?thesis by blast
    qed
  next
    assume "\<exists>pre post. c # cs = pre @ sub @ post"
    then obtain pre post where e: "c # cs = pre @ sub @ post" by blast
    show "includes_str (c # cs) sub"
    proof (cases pre)
      case Nil
      with e have "prefix sub (c # cs)" by (simp add: prefix_def)
      then show ?thesis by (simp add: startsWith_prefix)
    next
      case (Cons x xs)
      with e have "cs = xs @ sub @ post" by simp
      with Cons.IH have "includes_str cs sub" by blast
      then show ?thesis by simp
    qed
  qed
qed

section \<open>Properties of the classification\<close>

lemma first_pattern_matches_iff:
  "first_pattern_matches ps s \<longleftrightarrow> (\<exists>p \<in> set ps. regex_test p s)"
  by (induction ps) auto

text \<open>
  C1: \<open>classifyToken\<close> classifies by the pattern tables with a fixed precedence. The
  result is \<open>excluded\<close> if the full name matches some entry of \<open>EXCLUDE_PATTERNS\<close>, or if
  the value starts with an opening parenthesis or contains \<open>linear-gradient\<close>; otherwise
  \<open>foundation\<close> if the name matches some entry of \<open>FOUNDATION_PATTERNS\<close>; otherwise
  \<open>semantic\<close> if it matches some entry of \<open>SEMANTIC_PATTERNS\<close>; otherwise \<open>component\<close>.
  In particular a name that matches an exclusion pattern is excluded whatever else it
  matches, and a name that is not excluded and matches a foundation pattern is a
  foundation token whatever semantic pattern it matches.
\<close>

theorem classifyToken_precedence:
  "classifyToken fullName v =
     (if (\<exists>p \<in> set EXCLUDE_PATTERNS. regex_test p fullName)
         \<or> prefix ''('' v \<or> (\<exists>pre post. v = pre @ ''linear-gradient'' @ post)
      then Excluded
      else if (\<exists>p \<in> set FOUNDATION_PATTERNS. regex_test p fullName) then Foundation
      else if (\<exists>p \<in> set SEMANTIC_PATTERNS. regex_test p fullName) then Semantic
      else Component)
   \<and> ((\<exists>p \<in> set EXCLUDE_PATTERNS. regex_test p fullName) \<longrightarrow> classifyToken fullName v = Excluded)
   \<and> (classifyToken fullName v \<noteq> Excluded \<and> (\<exists>p \<in> set FOUNDATION_PATTERNS. regex_test p fullName)
        \<longrightarrow> classifyToken fullName v = Foundation)"
  unfolding classifyToken_def first_pattern_matches_iff startsWith_prefix includes_str_iff
  by simp

theorem classifyToken_precedence_witness:
  "(\<exists>p \<in> set FOUNDATION_PATTERNS. regex_test p ''$color-grey-10'')
   \<and> classifyToken ''$color-grey-10'' ''(10: #eee)'' = Excluded
   \<and> (\<exists>p \<in> set EXCLUDE_PATTERNS. regex_test p ''$font-family-icon'')
   \<and> classifyToken ''$font-family-icon'' ''chi'' = Excluded
   \<and> classifyToken ''$color-grey-10'' ''#eee'' = Foundation
   \<and> classifyToken ''$color-text-base'' ''$color-grey-90'' = Semantic
   \<and> classifyToken ''$button-height'' ''2rem'' = Component"
proof -
  have f: "\<exists>p \<in> set FOUNDATION_PATTERNS. regex_test p ''$color-grey-10''"
    unfolding first_pattern_matches_iff [symmetric] by code_simp
  have x: "\<exists>p \<in> set EXCLUDE_PATTERNS. regex_test p ''$font-family-icon''"
    unfolding first_pattern_matches_iff [symmetric] by code_simp
  have "prefix ''('' ''(10: #eee)''"
    by simp
  then have a: "classifyToken ''$color-grey-10'' ''(10: #eee)'' = Excluded"
    using classifyToken_precedence [of "''$color-grey-10''" "''(10: #eee)''"] by simp
  have b: "classifyToken ''$font-family-icon'' ''chi'' = Excluded"
    using x classifyToken_precedence [of "''$font-family-icon''" "''chi''"] by blast
  have "classifyToken ''$color-grey-10'' ''#eee'' \<noteq> Excluded"
    by code_simp
  then have c: "classifyToken ''$color-grey-10'' ''#eee'' = Foundation"
    using f classifyToken_precedence [of "''$color-grey-10''" "''#eee''"] by blast
  have d: "classifyToken ''$color-text-base'' ''$color-grey-90'' = Semantic"
    by code_simp
  have e: "classifyToken ''$button-height'' ''2rem'' = Component"
    by code_simp
  from f x a b c d e show ?thesis by blast
qed

section \<open>Properties of the regular expressions\<close>

lemma star_k_greedy:
  "list_all (atom_ok a) pre \<Longrightarrow> rest = [] \<or> \<not> atom_ok a (hd rest)
   \<Longrightarrow> k (caps, i + length pre, rest) \<noteq> None
   \<Longrightarrow> star_k a caps i (pre @ rest) k = k (caps, i + length pre, rest)"
proof (induction pre arbitrary: i)
  case Nil
  then show ?case by (cases rest) auto
next
  case (Cons c pre)
  from Cons.prems have "k (caps, Suc i + length pre, rest) \<noteq> None"
    by simp
  with Cons have "star_k a caps (Suc i) (pre @ rest) k = k (caps, Suc i + length pre, rest)"
    by simp
  with Cons.prems show ?case
    by auto
qed

lemma star_k_back_one:
  "list_all (atom_ok a) pre \<Longrightarrow> atom_ok a c
   \<Longrightarrow> k (caps, Suc (i + length pre), []) = None
   \<Longrightarrow> k (caps, i + length pre, [c]) \<noteq> None
   \<Longrightarrow> star_k a caps i (pre @ [c]) k = k (caps, i + length pre, [c])"
proof (induction pre arbitrary: i)
  case Nil
  then show ?case by simp
next
  case (Cons x pre)
  from Cons.prems have "star_k a caps (Suc i) (pre @ [c]) k = k (caps, Suc i + length pre, [c])"
    by (intro Cons.IH) simp_all
  with Cons.prems show ?case
    by auto
qed

lemma lazy_k_to_end:
  "u \<noteq> [] \<Longrightarrow> list_all (atom_ok a) u \<Longrightarrow> (\<And>j t. t \<noteq> [] \<Longrightarrow> k (caps, j, t) = None)
   \<Longrightarrow> lazy_k a caps i u k = k (caps, i + length u, [])"
proof (induction u arbitrary: i)
  case Nil
  then show ?case by simp
next
  case (Cons c u)
  show ?case
  proof (cases u)
    case Nil
    with Cons.prems show ?thesis
      by (simp split: option.splits)
  next
    case (Cons d v)
    with Cons.prems have "k (caps, Suc i, u) = None"
      by simp
    moreover from Cons Cons.prems Cons.IH have "lazy_k a caps (Suc i) u k = k (caps, Suc i + length u, [])"
      by simp
    ultimately show ?thesis
      using Cons.prems by simp
  qed
qed


lemma startsWith_two_slashes: "startsWith s ''//'' \<longleftrightarrow> take 2 s = ''//''"
proof (cases s)
  case Nil
  then show ?thesis by simp
next
  case (Cons c cs)
  then show ?thesis by (cases cs) auto
qed

lemma comment_tail:
  assumes "list_all (atom_ok Dot) u"
  shows "rmatch (Seq [Group (PlusLazy Dot), Eol]) (caps, j, u) Some
         = (if u = [] then None else Some (caps @ [u], j + length u, []))"
proof (cases "u = []")
  case True
  then show ?thesis by simp
next
  case False
  define k where "k = (\<lambda>(caps', j', t'). rmatch (Seq [Eol]) (caps' @ [take (j' - j) u], j', t') Some)"
  have none: "\<And>caps' j' t. t \<noteq> [] \<Longrightarrow> k (caps', j', t) = None"
    by (simp add: k_def)
  have "rmatch (Seq [Group (PlusLazy Dot), Eol]) (caps, j, u) Some = lazy_k Dot caps j u k"
    by (simp add: k_def)
  also have "\<dots> = k (caps, j + length u, [])"
    using False assms none by (rule lazy_k_to_end)
  also have "\<dots> = Some (caps @ [u], j + length u, [])"
    by (simp add: k_def)
  finally show ?thesis using False by simp
qed

lemma comment_regex_at:
  assumes "list_all (\<lambda>c. \<not> is_line_terminator c) t"
  shows "rmatch comment_regex ([], i, ''//'' @ t) Some
         = (if t = [] then None else Some ([capture_of t], i + 2 + length t, []))"
proof -
  define k where "k = (\<lambda>st. rmatch (Seq [Group (PlusLazy Dot), Eol]) st Some)"
  have dot: "list_all (atom_ok Dot) t"
    using assms by (simp add: list_all_iff)
  have k_eq: "k (caps, j, u) = (if u = [] then None else Some (caps @ [u], j + length u, []))"
    if "list_all (atom_ok Dot) u" for caps j u
    unfolding k_def using that by (rule comment_tail)
  have start: "rmatch comment_regex ([], i, ''//'' @ t) Some = star_k Space [] (i + 2) t k"
    by (simp add: comment_regex_def k_def)
  define ws where "ws = takeWhile is_space t"
  define u where "u = dropWhile is_space t"
  have t: "t = ws @ u"
    by (simp add: ws_def u_def)
  have ws: "list_all (atom_ok Space) ws"
    by (simp add: ws_def list_all_iff) (meson set_takeWhileD)
  have u_dot: "list_all (atom_ok Dot) u"
    using dot by (simp add: u_def list_all_iff) (meson set_dropWhileD)
  show ?thesis
  proof (cases "u = []")
    case False
    then have "rest_ok": "u = [] \<or> \<not> atom_ok Space (hd u)"
      using hd_dropWhile [of is_space t] by (simp add: u_def)
    have "k ([], i + 2 + length ws, u) = Some ([u], i + 2 + length ws + length u, [])"
      using k_eq [OF u_dot] False by simp
    then have "star_k Space [] (i + 2) (ws @ u) k = Some ([u], i + 2 + length ws + length u, [])"
      using star_k_greedy [OF ws rest_ok, of k "[]" "i + 2"] by simp
    with False show ?thesis
      unfolding start by (simp add: t [symmetric] capture_of_def u_def [symmetric]) (simp add: t)
  next
    case True
    show ?thesis
    proof (cases "t = []")
      case True
      then show ?thesis
        unfolding start using k_eq [of "[]"] by simp
    next
      case False
      then have bl: "t = butlast t @ [last t]"
        by simp
      from True have all_ws: "list_all (atom_ok Space) t"
        by (simp add: t ws)
      then have p: "list_all (atom_ok Space) (butlast t)" and l: "atom_ok Space (last t)"
        using False by (auto simp: list_all_iff dest: in_set_butlastD)
      have ld: "list_all (atom_ok Dot) [last t]"
        using dot False by (simp add: list_all_iff)
      have e: "k ([], Suc (i + 2 + length (butlast t)), []) = None"
        using k_eq [of "[]"] by simp
      have f: "k ([], i + 2 + length (butlast t), [last t]) = Some ([[last t]], i + 2 + length (butlast t) + 1, [])"
        using k_eq [OF ld] by simp
      have "star_k Space [] (i + 2) (butlast t @ [last t]) k = k ([], i + 2 + length (butlast t), [last t])"
        using p l e f by (intro star_k_back_one) simp_all
      then have "star_k Space [] (i + 2) t k = Some ([[last t]], i + 2 + length (butlast t) + 1, [])"
        using f bl by simp
      moreover have "length (butlast t) + 1 = length t"
        using False by simp
      ultimately show ?thesis
        unfolding start using False True by (simp add: capture_of_def u_def)
    qed
  qed
qed

lemma comment_regex_no_slashes:
  "\<not> startsWith s ''//'' \<Longrightarrow> rmatch comment_regex ([], i, s) Some = None"
  by (simp add: comment_regex_def)

lemma exec_comment_regex:
  "list_all (\<lambda>c. \<not> is_line_terminator c) s \<Longrightarrow>
   exec_from comment_regex i s
     = (case comment_part s of
          None \<Rightarrow> None
        | Some t \<Rightarrow> if t = [] then None else Some [''//'' @ t, capture_of t])"
proof (induction s arbitrary: i)
  case Nil
  then show ?case by (simp add: comment_regex_def)
next
  case (Cons c cs)
  show ?case
  proof (cases "take 2 (c # cs) = ''//''")
    case True
    define t where "t = drop 2 (c # cs)"
    from True have s: "c # cs = ''//'' @ t"
      unfolding t_def by (metis append_take_drop_id)
    have lt: "list_all (\<lambda>c. \<not> is_line_terminator c) t"
      using Cons.prems unfolding s by simp
    show ?thesis
    proof (cases "t = []")
      case True
      with s have cs: "cs = ''/''" and c: "c = CHR ''/''" by simp_all
      show ?thesis
        unfolding cs c by (simp add: comment_regex_def)
    next
      case False
      have "rmatch comment_regex ([], i, c # cs) Some = Some ([capture_of t], i + 2 + length t, [])"
        using comment_regex_at [OF lt, of i] False unfolding s by simp
      moreover have "take (2 + length t) (c # cs) = ''//'' @ t"
        unfolding s by simp
      moreover have "comment_part (c # cs) = Some t"
        by (simp only: comment_part.simps True t_def) simp
      ultimately show ?thesis
        using False by simp
    qed
  next
    case False
    then have "rmatch comment_regex ([], i, c # cs) Some = None"
      by (intro comment_regex_no_slashes) (simp add: startsWith_two_slashes)
    moreover have "comment_part (c # cs) = comment_part cs"
      by (simp only: comment_part.simps False if_False)
    ultimately show ?thesis
      using Cons by simp
  qed
qed


lemma name_char_ident: "is_name_char c \<Longrightarrow> atom_ok name_class c"
proof -
  have "list_all (atom_ok name_class)
          ''abcdefghijklmnopqrstuvwxyzABCDEFGHIJKLMNOPQRSTUVWXYZ0123456789_-''"
    by code_simp
  then show "is_name_char c \<Longrightarrow> atom_ok name_class c"
    unfolding is_name_char_def list_all_iff by blast
qed

lemma space_not_ident: "is_space c \<Longrightarrow> \<not> atom_ok name_class c"
proof -
  have "list_all (\<lambda>c. \<not> atom_ok name_class c) [CHR 0x09, CHR 0x0A, CHR 0x0B, CHR 0x0C, CHR 0x0D, CHR 0x20]"
    by code_simp
  then show "is_space c \<Longrightarrow> \<not> atom_ok name_class c"
    unfolding is_space_def list_all_iff by blast
qed

lemma colon_not_ident: "\<not> atom_ok name_class CHR '':''"
  unfolding name_class_def by (simp add: code_unit_def)

lemma colon_not_space: "\<not> is_space CHR '':''"
  by (simp add: is_space_def)

lemma declaration_tail:
  assumes "body \<noteq> []" and "list_all (atom_ok Dot) body"
  shows "rmatch (Seq [Group (Plus Dot), Eol]) (caps, j, body) Some
         = Some (caps @ [body], j + length body, [])"
proof -
  from assms obtain c b where body: "body = c # b" and c: "atom_ok Dot c" and b: "list_all (atom_ok Dot) b"
    by (cases body) auto
  define kg where "kg = (\<lambda>(caps', j', t). rmatch (Seq [Eol]) (caps' @ [take (j' - j) (c # b)], j', t) Some)"
  have fin: "kg (caps, Suc j + length b, []) = Some (caps @ [c # b], Suc j + length b, [])"
    by (simp add: kg_def)
  have "rmatch (Seq [Group (Plus Dot), Eol]) (caps, j, c # b) Some = star_k Dot caps (Suc j) (b @ []) kg"
    using c by (simp add: kg_def)
  also have "\<dots> = kg (caps, Suc j + length b, [])"
    using b fin by (intro star_k_greedy) simp_all
  finally show ?thesis
    using fin by (simp add: body)
qed

lemma declaration_regex_render:
  assumes nm: "nm \<noteq> []" "list_all is_name_char nm"
    and sp: "list_all is_space sp1" "list_all is_space sp2"
    and body: "body \<noteq> []" "\<not> is_space (hd body)" "list_all (\<lambda>c. \<not> is_line_terminator c) body"
  shows "rmatch declaration_regex ([], 0, ''$'' @ nm @ sp1 @ '':'' @ sp2 @ body) Some
         = Some ([nm, body], 1 + length nm + length sp1 + 1 + length sp2 + length body, [])"
proof -
  define k3 where "k3 = (\<lambda>st. rmatch (Seq [Group (Plus Dot), Eol]) st Some)"
  define k1 where "k1 = (\<lambda>st. rmatch (Seq [Lit '':'', Star Space, Group (Plus Dot), Eol]) st Some)"
  define rest where "rest = sp1 @ CHR '':'' # sp2 @ body"
  have dot: "list_all (atom_ok Dot) body"
    using body(3) by (simp add: list_all_iff)
  have e3: "k3 (caps, j, body) = Some (caps @ [body], j + length body, [])" for caps j
    unfolding k3_def using body(1) dot by (rule declaration_tail)
  have sp1: "list_all (atom_ok Space) sp1" and sp2: "list_all (atom_ok Space) sp2"
    using sp by (simp_all add: list_all_iff)
  have e2: "star_k Space caps j (sp2 @ body) k3 = Some (caps @ [body], j + length sp2 + length body, [])" for caps j
  proof -
    have "body = [] \<or> \<not> atom_ok Space (hd body)"
      using body(2) by simp
    moreover have "k3 (caps, j + length sp2, body) \<noteq> None"
      using e3 by simp
    ultimately have "star_k Space caps j (sp2 @ body) k3 = k3 (caps, j + length sp2, body)"
      using sp2 by (intro star_k_greedy)
    then show ?thesis using e3 by simp
  qed
  have e1: "k1 (caps, j, CHR '':'' # sp2 @ body) = Some (caps @ [body], j + 1 + length sp2 + length body, [])" for caps j
    unfolding k1_def using e2 [of caps "j + 1"] by (simp add: k3_def)
  have e0: "star_k Space caps j rest k1 = Some (caps @ [body], j + length sp1 + 1 + length sp2 + length body, [])" for caps j
  proof -
    have "CHR '':'' # sp2 @ body = [] \<or> \<not> atom_ok Space (hd (CHR '':'' # sp2 @ body))"
      using colon_not_space by simp
    moreover have "k1 (caps, j + length sp1, CHR '':'' # sp2 @ body) \<noteq> None"
      using e1 by simp
    ultimately have "star_k Space caps j (sp1 @ CHR '':'' # sp2 @ body) k1
        = k1 (caps, j + length sp1, CHR '':'' # sp2 @ body)"
      using sp1 by (intro star_k_greedy)
    then show ?thesis using e1 by (simp add: rest_def)
  qed
  from nm obtain c n where n: "nm = c # n" and c: "atom_ok name_class c" and n_ok: "list_all (atom_ok name_class) n"
    by (cases nm) (auto simp: list_all_iff name_char_ident)
  define kg where "kg = (\<lambda>(caps', j', t). star_k Space (caps' @ [take (j' - 1) (nm @ rest)]) j' t k1)"
  have rest_hd: "rest = [] \<or> \<not> atom_ok name_class (hd rest)"
  proof (cases sp1)
    case Nil
    then show ?thesis by (simp add: rest_def colon_not_ident)
  next
    case (Cons x xs)
    then have "is_space x" using sp(1) by simp
    then show ?thesis using Cons by (simp add: rest_def space_not_ident)
  qed
  have fin: "kg ([], 2 + length n, rest) = Some ([nm, body], 1 + length nm + length sp1 + 1 + length sp2 + length body, [])"
    unfolding kg_def using e0 [of "[nm]" "2 + length n"] by (simp add: n)
  have "rmatch declaration_regex ([], 0, ''$'' @ nm @ rest) Some = star_k name_class [] (Suc (Suc 0)) (n @ rest) kg"
    using c unfolding declaration_regex_def kg_def k1_def n
    by simp
  also have "\<dots> = star_k name_class [] (0 + 2) (n @ rest) kg"
    by (simp add: numeral_2_eq_2)
  also have "\<dots> = kg ([], 0 + 2 + length n, rest)"
    using n_ok rest_hd fin by (intro star_k_greedy) simp_all
  finally show ?thesis
    using fin by (simp add: rest_def)
qed

lemma declaration_match_render:
  assumes "well_formed (Declaration nm sp1 sp2 body)"
  shows "declaration_match (render_line (Declaration nm sp1 sp2 body)) = Some (nm, body)"
proof -
  have sp: "list_all is_space sp1" "list_all is_space sp2"
    using assms by (simp_all add: blank_def list_all_iff)
  have "rmatch declaration_regex ([], 0, ''$'' @ nm @ sp1 @ '':'' @ sp2 @ body) Some
         = Some ([nm, body], 1 + length nm + length sp1 + 1 + length sp2 + length body, [])"
    using assms sp by (intro declaration_regex_render) simp_all
  then show ?thesis
    by (simp add: declaration_match_def regex_match_def)
qed


lemma includes_char: "includes_str s [c] \<longleftrightarrow> c \<in> set s"
proof
  assume "includes_str s [c]"
  then show "c \<in> set s" unfolding includes_str_iff by auto
next
  assume "c \<in> set s"
  then obtain pre post where "s = pre @ c # post" by (meson split_list)
  then have "s = pre @ [c] @ post" by simp
  then show "includes_str s [c]" unfolding includes_str_iff by blast
qed

lemma lastIndexOf_absent: "c \<notin> set s \<Longrightarrow> lastIndexOf s c = -1"
  by (induction s) (auto simp: Let_def)

lemma lastIndexOf_last: "c \<notin> set post \<Longrightarrow> lastIndexOf (pre @ c # post) c = int (length pre)"
  by (induction pre) (auto simp: Let_def lastIndexOf_absent)

lemma before_last_semicolon_last:
  "CHR '';'' \<notin> set post \<Longrightarrow> before_last_semicolon (pre @ CHR '';'' # post) = pre"
proof -
  assume "CHR '';'' \<notin> set post"
  then have "dropWhile (\<lambda>c. c \<noteq> CHR '';'') (rev post @ CHR '';'' # rev pre) = CHR '';'' # rev pre"
    by (subst dropWhile_append2) auto
  then show ?thesis
    by (simp add: before_last_semicolon_def)
qed

lemma split_first_strip: "split_first ''//'' s = strip_comment s"
  by (induction s) (simp_all add: startsWith_two_slashes)

lemma strip_comment_id: "comment_part s = None \<Longrightarrow> strip_comment s = s"
  by (induction s) (auto split: if_splits)

lemma comment_part_includes: "comment_part s = None \<longleftrightarrow> \<not> includes_str s ''//''"
  by (induction s) (auto simp: startsWith_two_slashes split: if_splits)

lemma comment_part_append: "comment_part a = Some t \<Longrightarrow> comment_part (a @ b) = Some (t @ b)"
proof (induction a)
  case Nil
  then show ?case by simp
next
  case (Cons c cs)
  show ?case
  proof (cases "take 2 (c # cs) = ''//''")
    case True
    then obtain r where cs: "cs = CHR ''/'' # r" and c: "c = CHR ''/''"
      by (cases cs) auto
    with Cons.prems show ?thesis by simp
  next
    case False
    with Cons.prems have t: "comment_part cs = Some t"
      by (simp only: comment_part.simps if_False)
    then have "cs \<noteq> []" by auto
    with False have "take 2 ((c # cs) @ b) \<noteq> ''//''"
      by (cases cs) auto
    then have "comment_part ((c # cs) @ b) = comment_part (cs @ b)"
      by (simp only: append_Cons comment_part.simps if_False)
    with Cons.IH [OF t] show ?thesis by simp
  qed
qed

lemma trim_rtrim: "trim s = rtrim (dropWhile is_space s)"
  by (simp add: trim_def rtrim_def)

lemma rtrim_Cons: "rtrim (c # s) = (if rtrim s = [] \<and> is_space c then [] else c # rtrim s)"
  by (auto simp: rtrim_def dropWhile_append dropWhile_eq_Nil_conv)

lemma rtrim_split: "\<exists>ws. s = rtrim s @ ws \<and> list_all is_space ws"
proof -
  have "rev s = takeWhile is_space (rev s) @ dropWhile is_space (rev s)"
    by simp
  then have "s = rev (dropWhile is_space (rev s)) @ rev (takeWhile is_space (rev s))"
    by (metis rev_append rev_rev_ident)
  moreover have "list_all is_space (rev (takeWhile is_space (rev s)))"
    by (simp add: list_all_iff) (meson set_takeWhileD)
  ultimately show ?thesis unfolding rtrim_def by blast
qed

lemma slash_not_space: "\<not> is_space CHR ''/''"
  by (simp add: is_space_def)

lemma strip_comment_spaces: "list_all is_space ws \<Longrightarrow> strip_comment ws = ws"
  by (induction ws) (auto simp: slash_not_space)

lemma rtrim_spaces: "list_all is_space ws \<Longrightarrow> rtrim ws = []"
proof -
  assume "list_all is_space ws"
  then have "\<forall>c \<in> set (rev ws). is_space c"
    by (simp add: list_all_iff)
  then show ?thesis
    unfolding rtrim_def by (simp add: dropWhile_eq_Nil_conv)
qed

lemma rtrim_dropWhile: "rtrim (dropWhile is_space s) = dropWhile is_space (rtrim s)"
  by (induction s) (auto simp: rtrim_Cons, simp add: rtrim_def)

lemma rtrim_strip_append:
  "list_all is_space ws \<Longrightarrow> rtrim (strip_comment (z @ ws)) = rtrim (strip_comment z)"
proof (induction z)
  case Nil
  then show ?case by (simp add: strip_comment_spaces rtrim_spaces)
next
  case (Cons c z)
  show ?case
  proof (cases "take 2 (c # z) = ''//''")
    case True
    then obtain r where "z = CHR ''/'' # r" and "c = CHR ''/''"
      by (cases z) auto
    then show ?thesis by simp
  next
    case False
    have "take 2 (c # z @ ws) \<noteq> ''//''"
    proof (cases z)
      case Nil
      show ?thesis
      proof (cases ws)
        case Nil
        with \<open>z = []\<close> show ?thesis by simp
      next
        case (Cons w ws')
        with Cons.prems have "is_space w" by simp
        then have "w \<noteq> CHR ''/''" using slash_not_space by auto
        with Cons \<open>z = []\<close> show ?thesis by simp
      qed
    next
      case (Cons d z')
      with False show ?thesis by auto
    qed
    then have "strip_comment ((c # z) @ ws) = c # strip_comment (z @ ws)"
      by (simp only: append_Cons strip_comment.simps if_False)
    moreover have "strip_comment (c # z) = c # strip_comment z"
      using False by (simp only: strip_comment.simps if_False)
    ultimately show ?thesis
      using Cons.IH [OF Cons.prems] by (simp add: rtrim_Cons)
  qed
qed

lemma strip_comment_leading:
  "list_all is_space ws \<Longrightarrow> strip_comment (ws @ y) = ws @ strip_comment y"
proof (induction ws)
  case Nil
  then show ?case by simp
next
  case (Cons w ws)
  then have "w \<noteq> CHR ''/''" using slash_not_space by auto
  then have "take 2 ((w # ws) @ y) \<noteq> ''//''" by auto
  then have "strip_comment ((w # ws) @ y) = w # strip_comment (ws @ y)"
    by (simp only: append_Cons strip_comment.simps if_False)
  with Cons show ?case by simp
qed

lemma dropWhile_leading: "list_all is_space ws \<Longrightarrow> dropWhile is_space (ws @ y) = dropWhile is_space y"
  by (induction ws) auto

lemma trim_strip_trim: "trim (strip_comment (trim x)) = trim (strip_comment x)"
proof -
  define ws where "ws = takeWhile is_space x"
  define y where "y = dropWhile is_space x"
  have x: "x = ws @ y" and ws: "list_all is_space ws"
    by (simp_all add: ws_def y_def list_all_iff) (meson set_takeWhileD)
  obtain ws2 where y: "y = rtrim y @ ws2" and ws2: "list_all is_space ws2"
    using rtrim_split by blast
  have r: "trim (strip_comment x) = dropWhile is_space (rtrim (strip_comment y))"
    unfolding x by (simp add: trim_rtrim strip_comment_leading [OF ws] dropWhile_leading [OF ws] rtrim_dropWhile)
  have l: "trim (strip_comment (trim x)) = dropWhile is_space (rtrim (strip_comment (rtrim y)))"
    by (simp add: trim_rtrim y_def rtrim_dropWhile)
  have "rtrim (strip_comment y) = rtrim (strip_comment (rtrim y))"
    using rtrim_strip_append [OF ws2, of "rtrim y"] y by simp
  with l r show ?thesis by simp
qed

lemma trim_sub: "\<exists>a b. x = a @ trim x @ b"
proof -
  obtain ws2 where "dropWhile is_space x = rtrim (dropWhile is_space x) @ ws2"
    using rtrim_split by blast
  then have "x = takeWhile is_space x @ trim x @ ws2"
    by (metis takeWhile_dropWhile_id trim_rtrim)
  then show ?thesis by blast
qed

lemma includes_trim: "includes_str (trim x) sub \<Longrightarrow> includes_str x sub"
proof -
  assume "includes_str (trim x) sub"
  then obtain pre post where t: "trim x = pre @ sub @ post"
    unfolding includes_str_iff by blast
  obtain a b where "x = a @ trim x @ b"
    using trim_sub by blast
  then have "x = (a @ pre) @ sub @ (post @ b)"
    unfolding t by simp
  then show ?thesis
    unfolding includes_str_iff by blast
qed

lemma trim_capture: "t \<noteq> [] \<Longrightarrow> trim (capture_of t) = trim t"
proof (cases "dropWhile is_space t = []")
  case True
  assume "t \<noteq> []"
  moreover from True have "\<forall>c \<in> set t. is_space c"
    by (simp add: dropWhile_eq_Nil_conv)
  ultimately have "is_space (last t)"
    by simp
  then have "trim [last t] = []"
    by (simp add: trim_def)
  moreover have "trim t = []"
    by (simp only: trim_def True) simp
  ultimately show ?thesis
    using True by (simp add: capture_of_def)
next
  case False
  then show ?thesis
    by (simp only: capture_of_def if_False trim_def dropWhile_idem)
qed

lemma accumulate_done: "includes_str r '';'' \<Longrightarrow> accumulate r i ls = (r, i, ls)"
  by (cases ls) simp_all

lemma parse_declaration_single:
  assumes semi: "CHR '';'' \<in> set body"
    and lt: "list_all (\<lambda>c. \<not> is_line_terminator c) body"
  shows "parse_declaration i nm body ls
         = (\<lparr>name = nm,
              rawValue = trim (strip_comment (before_last_semicolon body)),
              comment = inline_comment body,
              line = i + 1,
              layer = classifyToken (''$'' @ nm) (trim (strip_comment (before_last_semicolon body)))\<rparr>,
            i, ls)"
proof -
  from semi obtain pre post where body: "body = pre @ CHR '';'' # post" and post: "CHR '';'' \<notin> set post"
    by (meson split_list_last)
  have inc: "includes_str body '';''"
    using semi by (simp add: includes_char)
  have idx: "lastIndexOf body CHR '';'' = int (length pre)"
    unfolding body using post by (rule lastIndexOf_last)
  have bls: "before_last_semicolon body = pre"
    unfolding body using post by (rule before_last_semicolon_last)
  have tk: "take (length pre) body = pre"
    by (simp add: body)
  have cm: "regex_match body comment_regex
     = (case comment_part body of
          None \<Rightarrow> None
        | Some t \<Rightarrow> if t = [] then None else Some [''//'' @ t, capture_of t])"
    unfolding regex_match_def using lt by (rule exec_comment_regex)
  have cmt: "(case regex_match body comment_regex of
                Some [whole, c] \<Rightarrow> Some (trim c)
              | _ \<Rightarrow> None) = inline_comment body"
    unfolding cm inline_comment_def by (auto split: option.splits simp: trim_capture)
  have guard: "regex_match body comment_regex \<noteq> None" if "includes_str (trim pre) ''//''"
  proof -
    from that have "includes_str pre ''//''" by (rule includes_trim)
    then obtain t where "comment_part pre = Some t"
      using comment_part_includes [of pre] by auto
    then have "comment_part body = Some (t @ CHR '';'' # post)"
      unfolding body by (rule comment_part_append)
    then show ?thesis unfolding cm by simp
  qed
  have v: "(if regex_match body comment_regex \<noteq> None \<and> includes_str (trim pre) ''//''
            then trim (split_first ''//'' (trim pre)) else trim pre)
           = trim (strip_comment pre)"
  proof (cases "includes_str (trim pre) ''//''")
    case True
    with guard show ?thesis
      by (simp add: split_first_strip trim_strip_trim)
  next
    case False
    then have "strip_comment (trim pre) = trim pre"
      using comment_part_includes [of "trim pre"] by (simp add: strip_comment_id)
    then have "trim pre = trim (strip_comment pre)"
      using trim_strip_trim [of pre] by (metis trim_rtrim rtrim_dropWhile trim_def rev_rev_ident dropWhile_idem)
    with False show ?thesis by simp
  qed
  have acc: "(if \<not> includes_str body '';''
               \<or> (includes_str body ''('' \<and> \<not> includes_str body '')'')
            then accumulate body i ls
            else (body, i, ls)) = (body, i, ls)"
    using inc by (simp add: accumulate_done)
  have v0: "(if lastIndexOf body CHR '';'' \<ge> 0 then trim (take (nat (lastIndexOf body CHR '';'')) body)
             else trim body) = trim pre"
    by (simp add: idx tk)
  show ?thesis
    unfolding parse_declaration_def acc prod.case Let_def v0 v cmt bls by (rule refl)
qed


lemma split_char_absent: "c \<notin> set l \<Longrightarrow> split_char c l = [l]"
  by (induction l) auto

lemma split_char_append: "c \<notin> set l \<Longrightarrow> split_char c (l @ c # rest) = l # split_char c rest"
  by (induction l) auto

lemma split_join_lines:
  "ls \<noteq> [] \<Longrightarrow> \<forall>l \<in> set ls. CHR 0x0A \<notin> set l \<Longrightarrow> split_char CHR 0x0A (join_lines ls) = ls"
proof (induction ls rule: join_lines.induct)
  case 1
  then show ?case by simp
next
  case (2 l)
  then show ?case by (simp add: split_char_absent)
next
  case (3 l m ls)
  then show ?case by (simp add: split_char_append)
qed

lemma name_char_not_newline: "is_name_char c \<Longrightarrow> c \<noteq> CHR 0x0A"
  unfolding is_name_char_def by auto

lemma render_no_newline: "well_formed it \<Longrightarrow> CHR 0x0A \<notin> set (render_line it)"
proof (cases it)
  case (Declaration nm sp1 sp2 body)
  assume "well_formed it"
  with Declaration have nm: "\<forall>c \<in> set nm. is_name_char c" and sp1: "\<forall>c \<in> set sp1. c \<noteq> CHR 0x0A"
    and sp2: "\<forall>c \<in> set sp2. c \<noteq> CHR 0x0A" and body: "\<forall>c \<in> set body. \<not> is_line_terminator c"
    by (simp_all add: list_all_iff blank_def)
  from nm have "CHR 0x0A \<notin> set nm"
    using name_char_not_newline by blast
  moreover from sp1 sp2 have "CHR 0x0A \<notin> set sp1" "CHR 0x0A \<notin> set sp2"
    by blast+
  moreover from body have "CHR 0x0A \<notin> set body"
    unfolding is_line_terminator_def by blast
  ultimately show ?thesis
    using Declaration by simp
next
  case (Other s)
  assume "well_formed it"
  with Other show ?thesis by simp
qed

lemma parse_from_items:
  "\<forall>it \<in> set items. well_formed it \<Longrightarrow>
   parse_from i (map render_line items)
     = concat (map returned (zip [Suc i..<Suc i + length items] items))"
proof (induction items arbitrary: i)
  case Nil
  then show ?case by (simp add: parse_from.simps)
next
  case (Cons it items)
  have ih: "parse_from (Suc i) (map render_line items)
     = concat (map returned (zip [Suc (Suc i)..<Suc (Suc i) + length items] items))"
    using Cons.prems by (intro Cons.IH) simp
  have "Suc i < Suc i + length (it # items)"
    by simp
  from upt_conv_Cons [OF this]
  have up: "[Suc i..<Suc i + length (it # items)] = Suc i # [Suc (Suc i)..<Suc (Suc i) + length items]"
    by simp
  show ?case
  proof (cases it)
    case (Declaration nm sp1 sp2 body)
    with Cons.prems have wf: "well_formed (Declaration nm sp1 sp2 body)"
      by simp
    then have m: "declaration_match (render_line it) = Some (nm, body)"
      unfolding Declaration by (rule declaration_match_render)
    have p: "parse_declaration i nm body (map render_line items)
         = (\<lparr>name = nm,
              rawValue = trim (strip_comment (before_last_semicolon body)),
              comment = inline_comment body,
              line = i + 1,
              layer = classifyToken (''$'' @ nm) (trim (strip_comment (before_last_semicolon body)))\<rparr>,
            i, map render_line items)"
      using wf by (intro parse_declaration_single) simp_all
    show ?thesis
      unfolding up using m p ih Declaration by (simp add: parse_from.simps)
  next
    case (Other s)
    with Cons.prems have "regex_match s declaration_regex = None"
      by (simp add: regex_test_def)
    then have "declaration_match (render_line it) = None"
      using Other by (simp add: declaration_match_def)
    then show ?thesis
      unfolding up using ih Other by (simp add: parse_from.simps)
  qed
qed

text \<open>
  What the parser returns. For every file whose lines are each a well-formed
  declaration line or a line that the declaration expression does not match,
  \<open>parseScssVariables\<close> returns exactly one record per declaration, in the order of the
  file. Its name is the declared identifier without the dollar sign; its \<open>rawValue\<close> is
  the text before the last semicolon of the body, cut at the first two slashes and
  trimmed; its comment is the trimmed text after the first two slashes of the body,
  absent when the body has no two slashes or nothing follows them; its line is the
  number of the line, and its layer is the classification of the name and the value.
  Two slashes start the comment wherever they stand in the body, also inside the value.
\<close>

lemma parseScssVariables_returned:
  assumes "\<forall>it \<in> set items. well_formed it"
  shows "parseScssVariables (join_lines (map render_line items))
         = concat (map returned (zip [1..<Suc (length items)] items))"
proof (cases "items = []")
  case True
  have "declaration_match [] = None"
    by (simp add: declaration_match_def regex_match_def declaration_regex_def)
  then show ?thesis
    using True by (simp add: parseScssVariables_def parse_from.simps)
next
  case False
  have "\<forall>l \<in> set (map render_line items). CHR 0x0A \<notin> set l"
    using assms render_no_newline by auto
  then have "split_char CHR 0x0A (join_lines (map render_line items)) = map render_line items"
    using False by (intro split_join_lines) simp_all
  then show ?thesis
    using parse_from_items [OF assms, of 0] by (simp add: parseScssVariables_def)
qed

lemma parseScssVariables_returned_example:
  "list_all well_formed example_file
   \<and> join_lines (map render_line example_file)
       = ''// Typography\<newline>$font-size-base: 1rem; // base size\<newline>\<newline>$color-text-base : $color-grey-90;\<newline>$link-note: url(a;b) ; // see x; y''
   \<and> parseScssVariables
         ''// Typography\<newline>$font-size-base: 1rem; // base size\<newline>\<newline>$color-text-base : $color-grey-90;\<newline>$link-note: url(a;b) ; // see x; y''
       = [\<lparr>name = ''font-size-base'', rawValue = ''1rem'', comment = Some ''base size'',
            line = 2, layer = Foundation\<rparr>,
          \<lparr>name = ''color-text-base'', rawValue = ''$color-grey-90'', comment = None,
            line = 4, layer = Semantic\<rparr>,
          \<lparr>name = ''link-note'', rawValue = ''url(a;b) ;'', comment = Some ''see x; y'',
            line = 5, layer = Component\<rparr>]"
proof -
  have wf: "list_all well_formed example_file"
    by code_simp
  then have all_wf: "\<forall>it \<in> set example_file. well_formed it"
    by (simp add: list_all_iff)
  have file_text: "join_lines (map render_line example_file)
       = ''// Typography\<newline>$font-size-base: 1rem; // base size\<newline>\<newline>$color-text-base : $color-grey-90;\<newline>$link-note: url(a;b) ; // see x; y''"
    by code_simp
  have records: "concat (map returned (zip [1..<Suc (length example_file)] example_file))
       = [\<lparr>name = ''font-size-base'', rawValue = ''1rem'', comment = Some ''base size'',
            line = 2, layer = Foundation\<rparr>,
          \<lparr>name = ''color-text-base'', rawValue = ''$color-grey-90'', comment = None,
            line = 4, layer = Semantic\<rparr>,
          \<lparr>name = ''link-note'', rawValue = ''url(a;b) ;'', comment = Some ''see x; y'',
            line = 5, layer = Component\<rparr>]"
    by code_simp
  show ?thesis
    using wf file_text records parseScssVariables_returned [OF all_wf] by simp
qed

lemma comment_part_step: "take 2 (c # cs) \<noteq> ''//'' \<Longrightarrow> comment_part (c # cs) = comment_part cs"
  by (simp only: comment_part.simps if_False)

lemma comment_part_after:
  "comment_part a = None \<Longrightarrow> b = [] \<or> hd b \<noteq> CHR ''/'' \<Longrightarrow> comment_part (a @ b) = comment_part b"
proof (induction a)
  case Nil
  then show ?case by simp
next
  case (Cons x xs)
  have here: "take 2 (x # xs) \<noteq> ''//''"
  proof
    assume "take 2 (x # xs) = ''//''"
    then have "comment_part (x # xs) = Some (drop 2 (x # xs))"
      by (simp only: comment_part.simps refl if_True)
    with Cons.prems(1) show False by simp
  qed
  from comment_part_step [OF here] Cons.prems(1) have rest: "comment_part xs = None"
    by simp
  have "take 2 (x # (xs @ b)) \<noteq> ''//''"
  proof (cases xs)
    case Nil
    with Cons.prems(2) show ?thesis
      by (cases b) auto
  next
    case (Cons y ys)
    with here show ?thesis by simp
  qed
  then have "comment_part (x # (xs @ b)) = comment_part (xs @ b)"
    by (rule comment_part_step)
  then show ?case
    using Cons.IH [OF rest Cons.prems(2)] by (simp only: append_Cons)
qed

lemma comment_part_spaces: "list_all is_space ws \<Longrightarrow> comment_part (ws @ t) = comment_part t"
proof (induction ws)
  case Nil
  then show ?case by simp
next
  case (Cons w ws)
  then have "w \<noteq> CHR ''/''"
    using slash_not_space by auto
  then have "take 2 (w # (ws @ t)) \<noteq> ''//''"
    by auto
  then have "comment_part (w # (ws @ t)) = comment_part (ws @ t)"
    by (rule comment_part_step)
  moreover from Cons have "comment_part (ws @ t) = comment_part t"
    by simp
  ultimately show ?case
    by (simp only: append_Cons)
qed

lemma semicolon_not_space: "\<not> is_space CHR '';''"
  by (simp add: is_space_def)

lemma returned_expected:
  assumes "as_described l"
  shows "returned (n, line_of l) = expected (n, l)"
proof (cases l)
  case (Undescribed s)
  then show ?thesis by simp
next
  case (Described nm sp1 sp2 v sp3 cmt)
  define tail where "tail = (case cmt of None \<Rightarrow> [] | Some c \<Rightarrow> ''//'' @ c)"
  define body where "body = v @ '';'' @ sp3 @ tail"
  from assms Described have sp3: "list_all is_space sp3" and v: "comment_part v = None"
    and cmt: "case cmt of None \<Rightarrow> True | Some c \<Rightarrow> trim c \<noteq> [] \<and> CHR '';'' \<notin> set c"
    by (simp_all add: blank_def list_all_iff comment_part_includes)
  have "CHR '';'' \<notin> set sp3"
    using sp3 semicolon_not_space by (auto simp: list_all_iff)
  moreover have "CHR '';'' \<notin> set tail"
    using cmt by (cases cmt) (simp_all add: tail_def)
  ultimately have "CHR '';'' \<notin> set (sp3 @ tail)"
    by simp
  then have "before_last_semicolon (v @ CHR '';'' # (sp3 @ tail)) = v"
    by (rule before_last_semicolon_last)
  then have bls: "before_last_semicolon body = v"
    by (simp add: body_def)
  have raw: "trim (strip_comment (before_last_semicolon body)) = trim v"
    unfolding bls using v by (simp add: strip_comment_id)
  have "comment_part body = comment_part (CHR '';'' # sp3 @ tail)"
    unfolding body_def using comment_part_after [OF v, of "CHR '';'' # sp3 @ tail"] by simp
  also have "\<dots> = comment_part (sp3 @ tail)"
    by (rule comment_part_step) simp
  also have "\<dots> = comment_part tail"
    using sp3 by (rule comment_part_spaces)
  finally have cp: "comment_part body = comment_part tail" .
  have com: "inline_comment body = map_option trim cmt"
  proof (cases cmt)
    case None
    then show ?thesis
      by (simp add: inline_comment_def cp tail_def)
  next
    case (Some c)
    with cmt have "trim c \<noteq> []"
      by simp
    then have "c \<noteq> []"
      by (auto simp: trim_def)
    with Some show ?thesis
      by (simp add: inline_comment_def cp tail_def)
  qed
  show ?thesis
    unfolding Described using raw com by (simp add: body_def tail_def)
qed

text \<open>
  Where the parser does what its description says. For every file whose lines are each
  as described (a declaration of which the value holds no two slashes, with an inline
  comment or none, or a line that is no declaration), \<open>parseScssVariables\<close> returns one
  record per declaration, in the order of the file, with the name, the value trimmed,
  the text of the comment trimmed when there is one, and the number of the line.
\<close>

lemma parseScssVariables_as_described:
  assumes "\<forall>l \<in> set ls. as_described l"
  shows "parseScssVariables (join_lines (map (\<lambda>l. render_line (line_of l)) ls))
         = concat (map expected (zip [1..<Suc (length ls)] ls))"
proof -
  have wf: "\<forall>it \<in> set (map line_of ls). well_formed it"
  proof
    fix it
    assume "it \<in> set (map line_of ls)"
    then obtain l where l: "l \<in> set ls" "it = line_of l"
      by auto
    with assms have "as_described l"
      by blast
    then show "well_formed it"
      unfolding l(2) by (cases l) simp_all
  qed
  have "map returned (zip ns (map line_of ls)) = map expected (zip ns ls)"
    if "\<forall>l \<in> set ls. as_described l" for ns :: "nat list"
    using that
  proof (induction ls arbitrary: ns)
    case Nil
    show ?case by simp
  next
    case (Cons l ls)
    show ?case
    proof (cases ns)
      case Nil
      then show ?thesis by simp
    next
      case (Cons k ks)
      with Cons.IH [of ks] Cons.prems show ?thesis
        by (simp add: returned_expected)
    qed
  qed
  with assms have "map returned (zip [1..<Suc (length ls)] (map line_of ls))
      = map expected (zip [1..<Suc (length ls)] ls)"
    by blast
  with parseScssVariables_returned [OF wf] show ?thesis
    by (simp add: comp_def)
qed

lemma parseScssVariables_as_described_example:
  "list_all as_described described_file
   \<and> join_lines (map (\<lambda>l. render_line (line_of l)) described_file)
       = ''// Typography\<newline>$font-size-base: 1rem; // base size\<newline>$link-note : url(a;b);''
   \<and> parseScssVariables ''// Typography\<newline>$font-size-base: 1rem; // base size\<newline>$link-note : url(a;b);''
       = [\<lparr>name = ''font-size-base'', rawValue = ''1rem'', comment = Some ''base size'',
            line = 2, layer = Foundation\<rparr>,
          \<lparr>name = ''link-note'', rawValue = ''url(a;b)'', comment = None,
            line = 3, layer = Component\<rparr>]"
proof -
  have d: "list_all as_described described_file"
    by code_simp
  then have all_d: "\<forall>l \<in> set described_file. as_described l"
    by (simp add: list_all_iff)
  have file_text: "join_lines (map (\<lambda>l. render_line (line_of l)) described_file)
       = ''// Typography\<newline>$font-size-base: 1rem; // base size\<newline>$link-note : url(a;b);''"
    by code_simp
  have records: "concat (map expected (zip [1..<Suc (length described_file)] described_file))
       = [\<lparr>name = ''font-size-base'', rawValue = ''1rem'', comment = Some ''base size'',
            line = 2, layer = Foundation\<rparr>,
          \<lparr>name = ''link-note'', rawValue = ''url(a;b)'', comment = None,
            line = 3, layer = Component\<rparr>]"
    by code_simp
  show ?thesis
    using d file_text records parseScssVariables_as_described [OF all_d] by simp
qed

text \<open>
  Claim C2. The parser does not do what its description says on a declaration of which
  the value holds two slashes. The line \<open>$u: url(http://x.y/z);\<close> is a declaration of
  the name \<open>u\<close> with the value \<open>url(http://x.y/z)\<close> and no inline comment, of which the
  description expects the record with that value and no comment. \<open>parseScssVariables\<close>
  returns the value \<open>url(http:\<close> and the comment \<open>x.y/z);\<close>: the comment expression finds
  the two slashes inside the value, and the value is then cut at them, although the
  source means to strip only a comment that stands after the value.
\<close>

theorem two_slashes_inside_value:
  "render_line (line_of (Described ''u'' [] '' '' ''url(http://x.y/z)'' [] None))
     = ''$u: url(http://x.y/z);''
   \<and> well_formed (line_of (Described ''u'' [] '' '' ''url(http://x.y/z)'' [] None))
   \<and> expected (1, Described ''u'' [] '' '' ''url(http://x.y/z)'' [] None)
     = [\<lparr>name = ''u'', rawValue = ''url(http://x.y/z)'', comment = None,
          line = 1, layer = Component\<rparr>]
   \<and> parseScssVariables ''$u: url(http://x.y/z);''
     = [\<lparr>name = ''u'', rawValue = ''url(http:'', comment = Some ''x.y/z);'',
          line = 1, layer = Component\<rparr>]"
  by code_simp

section \<open>Properties of the generated files\<close>

lemma fold_update_keys_distinct:
  "distinct (map fst m) \<Longrightarrow> distinct (map fst (fold (\<lambda>v m. AList.update (k v) (f v) m) xs m))"
  by (induction xs arbitrary: m) (simp_all add: distinct_update)

lemma fold_update_map_of:
  "map_of (fold (\<lambda>v m. AList.update (k v) (f v) m) xs m) n
     = (if filter (\<lambda>v. k v = n) xs = [] then map_of m n
        else Some (f (last (filter (\<lambda>v. k v = n) xs))))"
proof (induction xs arbitrary: m rule: rev_induct)
  case Nil
  then show ?case by simp
next
  case (snoc x xs)
  then show ?case
    by (simp add: update_conv')
qed

lemma fold_update_entries:
  "(\<And>key val. (key, val) \<in> set m \<Longrightarrow> P key val) \<Longrightarrow> (\<And>v. v \<in> set xs \<Longrightarrow> P (k v) (f v))
   \<Longrightarrow> (key, val) \<in> set (fold (\<lambda>v m. AList.update (k v) (f v) m) xs m) \<Longrightarrow> P key val"
proof (induction xs arbitrary: m)
  case Nil
  then show ?case by simp
next
  case (Cons x xs)
  have "\<And>key val. (key, val) \<in> set (AList.update (k x) (f x) m) \<Longrightarrow> P key val"
  proof -
    fix key val
    assume "(key, val) \<in> set (AList.update (k x) (f x) m)"
    then have "(key, val) \<in> set m \<or> (key, val) = (k x, f x)"
      by (induction m) (auto split: if_splits)
    then show "P key val"
      using Cons.prems(1) Cons.prems(2) [of x] by auto
  qed
  then show ?case
    using Cons.prems(2,3) by (intro Cons.IH [of "AList.update (k x) (f x) m"]) simp_all
qed

lemma foundationMap_entries:
  "(key, val) \<in> set (foundationMap xs) \<Longrightarrow> key = name val \<and> val \<in> set xs"
  unfolding foundationMap_def
  by (rule fold_update_entries [where P = "\<lambda>key val. key = name val \<and> val \<in> set xs" and m = "[]"]) simp_all

lemma foundationMap_keys: "map fst (foundationMap xs) = map name (dedupedFoundation xs)"
  unfolding dedupedFoundation_def using foundationMap_entries [of _ _ xs]
  by (induction "foundationMap xs") auto

lemma dedupedFoundation_distinct: "distinct (map name (dedupedFoundation xs))"
  unfolding foundationMap_keys [symmetric] foundationMap_def
  by (rule fold_update_keys_distinct) simp

lemma dedupedFoundation_subset: "set (dedupedFoundation xs) \<subseteq> set xs"
  unfolding dedupedFoundation_def using foundationMap_entries [of _ _ xs] by auto

lemma dedupedFoundation_last:
  assumes "w \<in> set xs"
  shows "\<exists>v \<in> set (dedupedFoundation xs). name v = name w \<and> v = last (filter (\<lambda>u. name u = name w) xs)"
proof -
  from assms have "filter (\<lambda>u. name u = name w) xs \<noteq> []"
    by (auto simp: filter_empty_conv)
  then have "map_of (foundationMap xs) (name w) = Some (last (filter (\<lambda>u. name u = name w) xs))"
    unfolding foundationMap_def fold_update_map_of by simp
  then have "(name w, last (filter (\<lambda>u. name u = name w) xs)) \<in> set (foundationMap xs)"
    by (rule map_of_SomeD)
  then have "last (filter (\<lambda>u. name u = name w) xs) \<in> set (dedupedFoundation xs)"
    "name (last (filter (\<lambda>u. name u = name w) xs)) = name w"
    unfolding dedupedFoundation_def using foundationMap_entries by force+
  then show ?thesis by blast
qed

lemma update_members_mset:
  "map_of gs g = Some ms \<Longrightarrow>
   mset (concat (map snd (AList.update g (ms @ [t]) gs))) = add_mset t (mset (concat (map snd gs)))"
  by (induction gs) (auto split: if_splits)

lemma addToGroup_mset:
  "mset (concat (map snd (addToGroup g t gs))) = add_mset t (mset (concat (map snd gs)))"
  by (simp add: addToGroup_def update_members_mset split: option.splits)

lemma fold_addToGroup_mset:
  "mset (concat (map snd (fold (\<lambda>token groups. addToGroup (grp token) token groups) xs gs)))
     = mset xs + mset (concat (map snd gs))"
  by (induction xs arbitrary: gs) (simp_all add: addToGroup_mset)

lemma groupFoundationTokens_mset: "mset (concat (map snd (groupFoundationTokens xs))) = mset xs"
  by (simp add: groupFoundationTokens_def fold_addToGroup_mset)

lemma groupSemanticTokens_mset: "mset (concat (map snd (groupSemanticTokens xs))) = mset xs"
  by (simp add: groupSemanticTokens_def fold_addToGroup_mset)


lemma token_line_chi: "chi_line (token_line v)"
  by (simp add: chi_line_def token_line_def toCssCustomProp_def PREFIX_def is_space_def)

lemma synthetic_line_chi: "chi_line (synthetic_line v)"
  by (simp add: chi_line_def synthetic_line_def toCssCustomProp_def PREFIX_def is_space_def)

lemma group_heading_not_chi: "\<not> chi_line (group_heading g)"
  by (simp add: chi_line_def group_heading_def is_space_def)

lemma empty_not_chi: "\<not> chi_line []"
  by (simp add: chi_line_def)

lemma rule_line_not_chi: "\<not> chi_line rule_line"
  by (simp add: chi_line_def rule_line_def is_space_def)

lemma filter_chi_all: "(\<And>l. l \<in> set ls \<Longrightarrow> chi_line l) \<Longrightarrow> filter chi_line ls = ls"
  by (induction ls) auto

lemma group_lines_chi: "filter chi_line (group_lines (g, ts)) = map token_line ts"
proof -
  have "filter chi_line (map token_line ts) = map token_line ts"
    by (rule filter_chi_all) (auto simp: token_line_chi)
  then show ?thesis
    by (simp add: group_lines_def group_heading_not_chi empty_not_chi)
qed

lemma groups_lines_chi:
  "filter chi_line (concat (map group_lines gs)) = map token_line (concat (map snd gs))"
proof (induction gs)
  case Nil
  then show ?case by simp
next
  case (Cons g gs)
  obtain n ts where g: "g = (n, ts)" by (cases g)
  show ?case
    using Cons by (simp add: g group_lines_chi)
qed

lemma scale_lines_chi: "filter chi_line (scale_lines (g, ts)) = map synthetic_line ts"
proof -
  have "filter chi_line (map synthetic_line ts) = map synthetic_line ts"
    by (rule filter_chi_all) (auto simp: synthetic_line_chi)
  then show ?thesis
    by (simp add: scale_lines_def group_heading_not_chi empty_not_chi)
qed

lemma scales_lines_chi:
  "filter chi_line (concat (map scale_lines gs)) = map synthetic_line (concat (map snd gs))"
proof (induction gs)
  case Nil
  then show ?case by simp
next
  case (Cons g gs)
  obtain n ts where g: "g = (n, ts)" by (cases g)
  show ?case
    using Cons by (simp add: g scale_lines_chi)
qed

lemma header_lines_chi: "filter chi_line (header_lines theme stamp a b c) = []"
  by (simp add: header_lines_def chi_line_def rule_line_def is_space_def)

lemma legacy_lines_chi: "filter chi_line legacy_lines = []"
  by (simp add: legacy_lines_def chi_line_def rule_line_def is_space_def)

lemma foundation_section_chi:
  "filter chi_line (foundation_section d)
     = (if d = [] then []
        else map token_line (emitted_foundation d)
             @ map synthetic_line (concat (map snd syntheticScales)))"
  by (simp add: foundation_section_def groups_lines_chi scales_lines_chi emitted_foundation_def
      rule_line_not_chi) (simp add: chi_line_def is_space_def)

lemma semantic_section_chi:
  "filter chi_line (semantic_section d sem) = map token_line (emitted_semantic sem)"
proof (cases "sem = []")
  case True
  then show ?thesis
    by (simp add: semantic_section_def emitted_semantic_def groupSemanticTokens_def)
next
  case False
  have "\<not> chi_line '':root {''" "\<not> chi_line ''}''"
    "\<not> chi_line ''// Semantic Layer - :root scope (globally accessible, theme-specific values)''"
    by (simp_all add: chi_line_def is_space_def)
  with False show ?thesis
    by (simp add: semantic_section_def groups_lines_chi legacy_lines_chi emitted_semantic_def
        rule_line_not_chi empty_not_chi)
qed

lemma scss_lines_chi:
  "filter chi_line (scss_lines tv gv theme layers stamp)
     = filter chi_line (foundation_section (dedupedFoundation (foundationTokens tv gv layers)))
       @ map token_line (emitted_semantic (semanticTokens tv layers))"
  by (simp add: scss_lines_def Let_def header_lines_chi semantic_section_chi empty_not_chi)


lemma parse_declaration_layer:
  "parse_declaration i nm r ls = (var, i', rest) \<Longrightarrow>
   layer var = classifyToken (''$'' @ name var) (rawValue var)"
  by (auto simp: parse_declaration_def Let_def split: prod.splits)

lemma parse_from_layer:
  "v \<in> set (parse_from i ls) \<Longrightarrow> layer v = classifyToken (''$'' @ name v) (rawValue v)"
proof (induction i ls rule: parse_from.induct)
  case (1 i)
  then show ?case by (simp add: parse_from.simps)
next
  case (2 i l ls)
  show ?case
  proof (cases "declaration_match l")
    case None
    with 2 show ?thesis by (simp add: parse_from.simps)
  next
    case (Some m)
    obtain nm r where m: "m = (nm, r)" by (cases m)
    obtain var i' rest where p: "parse_declaration i nm r ls = (var, i', rest)"
      by (cases "parse_declaration i nm r ls") auto
    from "2.prems" Some m p have "v = var \<or> v \<in> set (parse_from (Suc i') rest)"
      by (simp add: parse_from.simps)
    then show ?thesis
    proof
      assume "v = var"
      with p show ?thesis by (simp add: parse_declaration_layer)
    next
      assume "v \<in> set (parse_from (Suc i') rest)"
      with "2.IH"(2) [OF Some m [symmetric] p [symmetric] refl] show ?thesis by simp
    qed
  qed
qed

lemma parsed_layer:
  "v \<in> set (parseScssVariables c) \<Longrightarrow> layer v = classifyToken (''$'' @ name v) (rawValue v)"
  unfolding parseScssVariables_def by (rule parse_from_layer)

lemma foundation_matches:
  "classifyToken fullName v = Foundation \<Longrightarrow> first_pattern_matches FOUNDATION_PATTERNS fullName"
  by (simp add: classifyToken_def split: if_splits)

lemma synthetic_names_distinct: "distinct (map syn_name (concat ALL_SYNTHETIC_TOKENS))"
  by code_simp

lemma synthetic_names_not_foundation:
  "list_all (\<lambda>n. \<not> first_pattern_matches FOUNDATION_PATTERNS (''$'' @ n))
     (map syn_name (concat ALL_SYNTHETIC_TOKENS))"
  by code_simp

lemma syntheticScales_all: "concat (map snd syntheticScales) = concat ALL_SYNTHETIC_TOKENS"
  by (simp add: syntheticScales_def ALL_SYNTHETIC_TOKENS_def)

lemma syntheticCount_length: "syntheticCount = length (concat ALL_SYNTHETIC_TOKENS)"
  by (simp add: syntheticCount_def ALL_SYNTHETIC_TOKENS_def)

lemma foundation_not_synthetic:
  assumes "layer v = classifyToken (''$'' @ name v) (rawValue v)" and "layer v = Foundation"
  shows "name v \<notin> set (map syn_name (concat ALL_SYNTHETIC_TOKENS))"
proof
  assume "name v \<in> set (map syn_name (concat ALL_SYNTHETIC_TOKENS))"
  with synthetic_names_not_foundation
  have "\<not> first_pattern_matches FOUNDATION_PATTERNS (''$'' @ name v)"
    unfolding list_all_iff by blast
  moreover from assms have "first_pattern_matches FOUNDATION_PATTERNS (''$'' @ name v)"
    by (intro foundation_matches [of _ "rawValue v"]) simp
  ultimately show False by contradiction
qed

lemma toCssCustomProp_inj: "inj toCssCustomProp"
  by (rule injI) (simp add: toCssCustomProp_def)


lemma add_variable_entries_distinct:
  "distinct (map fst m) \<Longrightarrow> distinct (map fst (add_variable_entries ts m))"
  unfolding add_variable_entries_def by (rule fold_update_keys_distinct)

lemma add_synthetic_entries_distinct:
  "distinct (map fst m) \<Longrightarrow> distinct (map fst (add_synthetic_entries ts m))"
  unfolding add_synthetic_entries_def by (rule fold_update_keys_distinct)

lemma fold_add_synthetic_distinct:
  "distinct (map fst m) \<Longrightarrow> distinct (map fst (fold add_synthetic_entries tss m))"
  by (induction tss arbitrary: m) (simp_all add: add_synthetic_entries_distinct)

lemma foundationEntries_distinct: "distinct (map fst (foundationEntries tv gv))"
  unfolding foundationEntries_def
  by (intro fold_add_synthetic_distinct add_variable_entries_distinct) simp

lemma add_synthetic_entries_other:
  "n \<notin> set (map syn_name syns) \<Longrightarrow> map_of (add_synthetic_entries syns m) n = map_of m n"
proof -
  assume "n \<notin> set (map syn_name syns)"
  then have "filter (\<lambda>v. syn_name v = n) syns = []"
    by (auto simp: filter_empty_conv)
  then show ?thesis
    unfolding add_synthetic_entries_def fold_update_map_of by simp
qed

lemma fold_add_synthetic_other:
  "n \<notin> set (map syn_name (concat tss)) \<Longrightarrow> map_of (fold add_synthetic_entries tss m) n = map_of m n"
  by (induction tss arbitrary: m) (simp_all add: add_synthetic_entries_other)

lemma filter_same_key:
  "distinct (map f xs) \<Longrightarrow> x \<in> set xs \<Longrightarrow> filter (\<lambda>y. f y = f x) xs = [x]"
proof (induction xs)
  case Nil
  then show ?case by simp
next
  case (Cons a xs)
  show ?case
  proof (cases "a = x")
    case True
    with Cons.prems have "f x \<notin> f ` set xs"
      by simp
    then have "\<forall>y \<in> set xs. f y \<noteq> f x"
      by (metis imageI)
    then have "filter (\<lambda>y. f y = f x) xs = []"
      by (simp add: filter_empty_conv)
    with True show ?thesis by simp
  next
    case False
    with Cons.prems have "x \<in> set xs" and "f a \<noteq> f x"
      by auto
    with Cons show ?thesis by simp
  qed
qed

lemma add_variable_entries_lookup:
  "distinct (map name d) \<Longrightarrow> v \<in> set d \<Longrightarrow>
   map_of (add_variable_entries d []) (name v) = Some (variable_entry v)"
  unfolding add_variable_entries_def fold_update_map_of
  by (simp add: filter_same_key)

lemma last_theme_variable:
  assumes "w \<in> set tv" and "layer w = Foundation"
  shows "last (filter (\<lambda>u. name u = name w)
            (filter (\<lambda>v. layer v = Foundation) gv @ filter (\<lambda>v. layer v = Foundation) tv))
         = last (filter (\<lambda>u. layer u = Foundation \<and> name u = name w) tv)"
proof -
  have e: "filter (\<lambda>u. name u = name w) (filter (\<lambda>v. layer v = Foundation) tv)
           = filter (\<lambda>u. layer u = Foundation \<and> name u = name w) tv"
    by (simp add: conj_commute)
  from assms have "filter (\<lambda>u. layer u = Foundation \<and> name u = name w) tv \<noteq> []"
    by (auto simp: filter_empty_conv)
  then show ?thesis
    by (simp add: e)
qed

text \<open>
  Claim C3, as amended. In what is generated from parsed files, the names of the
  foundation layer are unique, and those of the semantic layer are unique in the JSON
  metadata, but in the SCSS only as far as they are in the theme's file. For the
  contents \<open>g\<close> of the global variables file and \<open>t\<close> of a theme's variables file, the
  deduplicated foundation tokens have distinct names; the foundation section of the SCSS
  declares each of them exactly once, followed by the synthetic tokens, and the custom
  property names declared there are distinct; the foundation entries of the JSON metadata
  have distinct keys; and a foundation variable of the theme overrides a global variable
  of the same name: the token kept under its name, in the SCSS (when the foundation layer
  is requested) and in the metadata, is the last theme variable of that name. The
  semantic tokens are not deduplicated: the semantic section of the SCSS declares one
  custom property for every semantic variable of the theme's file, as often as the file
  declares it, so that the names declared there are distinct exactly when the names of
  the semantic variables of the file are; the semantic entries of the JSON metadata have
  distinct keys, and the entry kept under a name is that of the last semantic variable
  of that name.
\<close>

theorem token_names_per_layer:
  fixes g t theme stamp :: string and layers :: "layer list" and out :: GeneratedOutput
  defines "gv \<equiv> parseScssVariables g"
    and "tv \<equiv> parseScssVariables t"
  defines "d \<equiv> dedupedFoundation (foundationTokens tv gv layers)"
    and "sem \<equiv> semanticTokens tv layers"
    and "md \<equiv> generateTokenMetadata tv gv theme out stamp"
  shows "distinct (map name d)
    \<and> mset (emitted_foundation d) = mset d
    \<and> filter chi_line (foundation_section d)
        = (if d = [] then []
           else map token_line (emitted_foundation d)
                @ map synthetic_line (concat ALL_SYNTHETIC_TOKENS))
    \<and> distinct (map (\<lambda>v. toCssCustomProp (name v)) (emitted_foundation d)
                 @ map (\<lambda>s. toCssCustomProp (syn_name s)) (concat ALL_SYNTHETIC_TOKENS))
    \<and> distinct (map fst (tokens_foundation md))
    \<and> (\<forall>w \<in> set tv. layer w = Foundation \<longrightarrow>
          (Foundation \<in> set layers \<longrightarrow>
             (\<exists>v \<in> set d. name v = name w
                \<and> v = last (filter (\<lambda>u. layer u = Foundation \<and> name u = name w) tv)))
          \<and> map_of (tokens_foundation md) (name w)
              = Some (variable_entry (last (filter (\<lambda>u. layer u = Foundation \<and> name u = name w) tv))))
    \<and> filter chi_line (scss_lines tv gv theme layers stamp)
        = filter chi_line (foundation_section d) @ map token_line (emitted_semantic sem)
    \<and> mset (emitted_semantic sem) = mset sem
    \<and> (distinct (map (\<lambda>v. toCssCustomProp (name v)) (emitted_semantic sem))
         \<longleftrightarrow> distinct (map name sem))
    \<and> distinct (map fst (tokens_semantic md))
    \<and> (\<forall>w \<in> set tv. layer w = Semantic \<longrightarrow>
          map_of (tokens_semantic md) (name w)
            = Some (variable_entry (last (filter (\<lambda>u. layer u = Semantic \<and> name u = name w) tv))))"
proof -
  define fnd where "fnd = filter (\<lambda>v. layer v = Foundation) gv @ filter (\<lambda>v. layer v = Foundation) tv"
  have parsed: "layer v = classifyToken (''$'' @ name v) (rawValue v)" if "v \<in> set gv \<union> set tv" for v
    using that parsed_layer unfolding gv_def tv_def by blast
  have fnd_parsed: "name v \<notin> set (map syn_name (concat ALL_SYNTHETIC_TOKENS))" if "v \<in> set fnd" for v
    using that parsed [of v] by (intro foundation_not_synthetic) (auto simp: fnd_def)
  have d_sub: "set d \<subseteq> set fnd"
  proof (cases "Foundation \<in> set layers")
    case True
    then have "d = dedupedFoundation fnd"
      by (simp add: d_def foundationTokens_def fnd_def)
    then show ?thesis
      using dedupedFoundation_subset [of fnd] by simp
  next
    case False
    then have "d = []"
      by (simp add: d_def foundationTokens_def dedupedFoundation_def foundationMap_def)
    then show ?thesis by simp
  qed
  have a: "distinct (map name d)"
    unfolding d_def by (rule dedupedFoundation_distinct)
  have b: "mset (emitted_foundation d) = mset d"
    unfolding emitted_foundation_def by (rule groupFoundationTokens_mset)
  have c: "filter chi_line (foundation_section d)
        = (if d = [] then []
           else map token_line (emitted_foundation d)
                @ map synthetic_line (concat ALL_SYNTHETIC_TOKENS))"
    unfolding foundation_section_chi syntheticScales_all by (rule refl)
  have names: "distinct (map name (emitted_foundation d))"
    using a b by (metis mset_map mset_eq_imp_distinct_iff)
  have "set (map name (emitted_foundation d)) \<inter> set (map syn_name (concat ALL_SYNTHETIC_TOKENS)) = {}"
  proof -
    have "set (emitted_foundation d) = set d"
      using b by (rule mset_eq_setD)
    with d_sub fnd_parsed show ?thesis by auto
  qed
  with names synthetic_names_distinct
  have "distinct (map name (emitted_foundation d) @ map syn_name (concat ALL_SYNTHETIC_TOKENS))"
    by simp
  then have "distinct (map toCssCustomProp
      (map name (emitted_foundation d) @ map syn_name (concat ALL_SYNTHETIC_TOKENS)))"
    using toCssCustomProp_inj by (simp only: distinct_map) (meson inj_on_subset subset_UNIV)
  then have dd: "distinct (map (\<lambda>v. toCssCustomProp (name v)) (emitted_foundation d)
                 @ map (\<lambda>s. toCssCustomProp (syn_name s)) (concat ALL_SYNTHETIC_TOKENS))"
    by (simp add: comp_def)
  have e: "distinct (map fst (tokens_foundation md))"
    unfolding md_def generateTokenMetadata_def by (simp add: Let_def foundationEntries_distinct)
  have f: "(Foundation \<in> set layers \<longrightarrow>
             (\<exists>v \<in> set d. name v = name w
                \<and> v = last (filter (\<lambda>u. layer u = Foundation \<and> name u = name w) tv)))
          \<and> map_of (tokens_foundation md) (name w)
              = Some (variable_entry (last (filter (\<lambda>u. layer u = Foundation \<and> name u = name w) tv)))"
    if w: "w \<in> set tv" "layer w = Foundation" for w
  proof -
    have wf: "w \<in> set fnd"
      using w by (simp add: fnd_def)
    have lw: "last (filter (\<lambda>u. name u = name w) fnd)
        = last (filter (\<lambda>u. layer u = Foundation \<and> name u = name w) tv)"
      unfolding fnd_def using w by (rule last_theme_variable)
    obtain v where v: "v \<in> set (dedupedFoundation fnd)" "name v = name w"
        "v = last (filter (\<lambda>u. name u = name w) fnd)"
      using dedupedFoundation_last [OF wf] by blast
    have "map_of (add_variable_entries (dedupedFoundation fnd) []) (name v) = Some (variable_entry v)"
      using dedupedFoundation_distinct v(1) by (rule add_variable_entries_lookup)
    moreover have "name w \<notin> set (map syn_name (concat ALL_SYNTHETIC_TOKENS))"
      using wf by (rule fnd_parsed)
    ultimately have "map_of (foundationEntries tv gv) (name w) = Some (variable_entry v)"
      unfolding foundationEntries_def fnd_def [symmetric] using v(2)
      by (simp add: fold_add_synthetic_other)
    then have j: "map_of (tokens_foundation md) (name w)
        = Some (variable_entry (last (filter (\<lambda>u. layer u = Foundation \<and> name u = name w) tv)))"
      unfolding md_def generateTokenMetadata_def using v(3) lw by (simp add: Let_def)
    have "\<exists>v \<in> set d. name v = name w
        \<and> v = last (filter (\<lambda>u. layer u = Foundation \<and> name u = name w) tv)"
      if "Foundation \<in> set layers"
    proof -
      from that have "d = dedupedFoundation fnd"
        by (simp add: d_def foundationTokens_def fnd_def)
      with v lw show ?thesis by auto
    qed
    with j show ?thesis by blast
  qed
  have s1: "filter chi_line (scss_lines tv gv theme layers stamp)
        = filter chi_line (foundation_section d) @ map token_line (emitted_semantic sem)"
    unfolding d_def sem_def by (rule scss_lines_chi)
  have s2: "mset (emitted_semantic sem) = mset sem"
    unfolding emitted_semantic_def by (rule groupSemanticTokens_mset)
  have "distinct (map name (emitted_semantic sem)) \<longleftrightarrow> distinct (map name sem)"
    using s2 by (metis mset_map mset_eq_imp_distinct_iff)
  moreover have "distinct (map toCssCustomProp (map name (emitted_semantic sem)))
      \<longleftrightarrow> distinct (map name (emitted_semantic sem))"
    using toCssCustomProp_inj by (simp only: distinct_map) (meson inj_on_subset subset_UNIV)
  ultimately have s3: "distinct (map (\<lambda>v. toCssCustomProp (name v)) (emitted_semantic sem))
         \<longleftrightarrow> distinct (map name sem)"
    by (simp add: comp_def)
  have s4: "distinct (map fst (tokens_semantic md))"
    unfolding md_def generateTokenMetadata_def
    by (simp add: Let_def semanticEntries_def add_variable_entries_distinct)
  have s5: "map_of (tokens_semantic md) (name w)
            = Some (variable_entry (last (filter (\<lambda>u. layer u = Semantic \<and> name u = name w) tv)))"
    if w: "w \<in> set tv" "layer w = Semantic" for w
  proof -
    have e: "filter (\<lambda>u. name u = name w) (filter (\<lambda>v. layer v = Semantic) tv)
           = filter (\<lambda>u. layer u = Semantic \<and> name u = name w) tv"
      by (simp add: conj_commute)
    from w have "filter (\<lambda>u. layer u = Semantic \<and> name u = name w) tv \<noteq> []"
      by (auto simp: filter_empty_conv)
    then show ?thesis
      unfolding md_def generateTokenMetadata_def
      by (simp add: Let_def semanticEntries_def add_variable_entries_def fold_update_map_of e)
  qed
  from a b c dd e f s1 s2 s3 s4 s5 show ?thesis by blast
qed

theorem token_names_per_layer_witness:
  "grey_90 \<in> set (parseScssVariables theme_file)
   \<and> layer grey_90 = Foundation
   \<and> map name (dedupedFoundation (foundationTokens (parseScssVariables theme_file)
                  (parseScssVariables global_file) [Foundation, Semantic]))
       = [''color-grey-90'', ''base-unit'']
   \<and> (\<exists>v \<in> set (dedupedFoundation (foundationTokens (parseScssVariables theme_file)
                  (parseScssVariables global_file) [Foundation, Semantic])).
         name v = ''color-grey-90'' \<and> v = grey_90)
   \<and> map_of (tokens_foundation (generateTokenMetadata (parseScssVariables theme_file)
                  (parseScssVariables global_file) ''lumen'' example_output example_stamp))
         ''color-grey-90''
       = Some (variable_entry grey_90)
   \<and> distinct (map fst (tokens_foundation (generateTokenMetadata (parseScssVariables theme_file)
                  (parseScssVariables global_file) ''lumen'' example_output example_stamp)))
   \<and> text_base \<in> set (parseScssVariables theme_file)
   \<and> layer text_base = Semantic
   \<and> map_of (tokens_semantic (generateTokenMetadata (parseScssVariables theme_file)
                  (parseScssVariables global_file) ''lumen'' example_output example_stamp))
         ''color-text-base''
       = Some (variable_entry text_base)
   \<and> distinct (map fst (tokens_semantic (generateTokenMetadata (parseScssVariables twice_file)
                  (parseScssVariables global_file) ''lumen'' example_output example_stamp)))
   \<and> \<not> distinct (map (\<lambda>v. toCssCustomProp (name v))
           (emitted_semantic (semanticTokens (parseScssVariables twice_file) [Foundation, Semantic])))"
proof -
  note inst = token_names_per_layer [where g = global_file and t = theme_file
      and layers = "[Foundation, Semantic]" and theme = "''lumen''" and out = example_output
      and stamp = example_stamp]
  note twice = token_names_per_layer [where g = global_file and t = twice_file
      and layers = "[Foundation, Semantic]" and theme = "''lumen''" and out = example_output
      and stamp = example_stamp]
  have m: "grey_90 \<in> set (parseScssVariables theme_file)"
    by code_simp
  have l: "layer grey_90 = Foundation"
    by (simp add: grey_90_def)
  have n: "name grey_90 = ''color-grey-90''"
    by (simp add: grey_90_def)
  have f: "Foundation \<in> set [Foundation, Semantic]"
    by simp
  have lst: "last (filter (\<lambda>u. layer u = Foundation \<and> name u = ''color-grey-90'') (parseScssVariables theme_file))
        = grey_90"
    by code_simp
  have names: "map name (dedupedFoundation (foundationTokens (parseScssVariables theme_file)
                  (parseScssVariables global_file) [Foundation, Semantic]))
       = [''color-grey-90'', ''base-unit'']"
    by code_simp
  from inst m l f have "(\<exists>v \<in> set (dedupedFoundation (foundationTokens (parseScssVariables theme_file)
                  (parseScssVariables global_file) [Foundation, Semantic])).
         name v = name grey_90
         \<and> v = last (filter (\<lambda>u. layer u = Foundation \<and> name u = name grey_90) (parseScssVariables theme_file)))
     \<and> map_of (tokens_foundation (generateTokenMetadata (parseScssVariables theme_file)
                  (parseScssVariables global_file) ''lumen'' example_output example_stamp))
         (name grey_90)
       = Some (variable_entry (last (filter (\<lambda>u. layer u = Foundation \<and> name u = name grey_90)
                (parseScssVariables theme_file))))"
    by blast
  then have o: "(\<exists>v \<in> set (dedupedFoundation (foundationTokens (parseScssVariables theme_file)
                  (parseScssVariables global_file) [Foundation, Semantic])).
         name v = ''color-grey-90'' \<and> v = grey_90)
     \<and> map_of (tokens_foundation (generateTokenMetadata (parseScssVariables theme_file)
                  (parseScssVariables global_file) ''lumen'' example_output example_stamp))
         ''color-grey-90''
       = Some (variable_entry grey_90)"
    unfolding n lst by simp
  from inst have df: "distinct (map fst (tokens_foundation (generateTokenMetadata (parseScssVariables theme_file)
                  (parseScssVariables global_file) ''lumen'' example_output example_stamp)))"
    by blast
  have sm: "text_base \<in> set (parseScssVariables theme_file)"
    by code_simp
  have sl: "layer text_base = Semantic"
    by (simp add: text_base_def)
  have sn: "name text_base = ''color-text-base''"
    by (simp add: text_base_def)
  have slst: "last (filter (\<lambda>u. layer u = Semantic \<and> name u = ''color-text-base'') (parseScssVariables theme_file))
        = text_base"
    by code_simp
  from inst sm sl have "map_of (tokens_semantic (generateTokenMetadata (parseScssVariables theme_file)
                  (parseScssVariables global_file) ''lumen'' example_output example_stamp))
         (name text_base)
       = Some (variable_entry (last (filter (\<lambda>u. layer u = Semantic \<and> name u = name text_base)
                (parseScssVariables theme_file))))"
    by blast
  then have so: "map_of (tokens_semantic (generateTokenMetadata (parseScssVariables theme_file)
                  (parseScssVariables global_file) ''lumen'' example_output example_stamp))
         ''color-text-base''
       = Some (variable_entry text_base)"
    unfolding sn slst by simp
  from twice have ds: "distinct (map fst (tokens_semantic (generateTokenMetadata (parseScssVariables twice_file)
                  (parseScssVariables global_file) ''lumen'' example_output example_stamp)))"
    by blast
  have "\<not> distinct (map name (semanticTokens (parseScssVariables twice_file) [Foundation, Semantic]))"
    by code_simp
  with twice have nd: "\<not> distinct (map (\<lambda>v. toCssCustomProp (name v))
           (emitted_semantic (semanticTokens (parseScssVariables twice_file) [Foundation, Semantic])))"
    by blast
  from m l names o df sm sl so ds nd show ?thesis by blast
qed

text \<open>
  The claim as stated fails for the semantic layer: a theme's file that declares the
  semantic variable \<open>color-text-a\<close> twice yields a generated SCSS that declares the custom
  property of that name twice, while the JSON metadata holds one entry under the name.
\<close>

theorem semantic_name_declared_twice:
  "chi_declarations (scss (generateCssVariablesScss (parseScssVariables twice_file) []
       ''lumen'' [Foundation, Semantic] example_stamp))
     = [''  --chi-color-text-a: #{$color-text-a};'', ''  --chi-color-text-a: #{$color-text-a};'']
   \<and> map fst (tokens_semantic (generateTokenMetadata (parseScssVariables twice_file) []
         ''lumen'' example_output example_stamp))
     = [''color-text-a'']"
proof -
  have p: "parseScssVariables twice_file =
     [\<lparr>name = ''color-text-a'', rawValue = ''#111'', comment = None, line = 1, layer = Semantic\<rparr>,
      \<lparr>name = ''color-text-a'', rawValue = ''#222'', comment = None, line = 2, layer = Semantic\<rparr>]"
    by code_simp
  have a: "chi_declarations (scss (generateCssVariablesScss (parseScssVariables twice_file) []
       ''lumen'' [Foundation, Semantic] example_stamp))
     = [''  --chi-color-text-a: #{$color-text-a};'', ''  --chi-color-text-a: #{$color-text-a};'']"
    unfolding p by code_simp
  have b: "map fst (tokens_semantic (generateTokenMetadata (parseScssVariables twice_file) []
         ''lumen'' example_output example_stamp))
     = [''color-text-a'']"
    unfolding p generateTokenMetadata_def Let_def by (simp, code_simp)
  from a b show ?thesis by blast
qed

lemma synthetic_count_value: "syntheticCount = 59"
  by code_simp

lemma parsed_theme_file:
  "parseScssVariables theme_file =
     [text_base, grey_90,
      \<lparr>name = ''button-height'', rawValue = ''2rem'', comment = None, line = 3, layer = Component\<rparr>]"
  by code_simp

lemma parsed_global_file:
  "parseScssVariables global_file =
     [\<lparr>name = ''color-grey-90'', rawValue = ''#111'', comment = Some ''darkest'', line = 1, layer = Foundation\<rparr>,
      \<lparr>name = ''base-unit'', rawValue = ''0.5rem'', comment = None, line = 2, layer = Foundation\<rparr>]"
  by code_simp

lemma semanticEntries_from_theme:
  "(k, e) \<in> set (semanticEntries tv) \<Longrightarrow> \<exists>v \<in> set tv. layer v = Semantic \<and> k = name v \<and> e = variable_entry v"
  unfolding semanticEntries_def add_variable_entries_def
  by (rule fold_update_entries
        [where P = "\<lambda>k e. \<exists>v \<in> set tv. layer v = Semantic \<and> k = name v \<and> e = variable_entry v"
           and m = "[]"])
     auto

text \<open>
  Claim C7. Semantic tokens are aliases of the theme. For every theme file \<open>tv\<close> and
  global file \<open>gv\<close>: the custom property declarations of the generated SCSS are those of
  the foundation section followed by one line for each emitted semantic token; the
  emitted semantic tokens are, each as often as it is there, the variables selected by
  \<open>semanticTokens\<close>, and these are variables of the theme file classified as semantic
  (when the semantic layer is requested); every entry of \<open>tokens.semantic\<close> in the JSON
  metadata is the entry of a semantic variable of the theme file under its name; and the
  semantic entries are the same whatever the global file holds. No variable of the
  global file reaches the semantic section or the semantic entries.
\<close>

theorem semantic_tokens_from_theme:
  fixes tv gv gv' :: "ScssVariable list" and theme stamp stamp' :: string
    and layers :: "layer list" and out out' :: GeneratedOutput
  defines "sem \<equiv> semanticTokens tv layers"
  shows "filter chi_line (scss_lines tv gv theme layers stamp)
       = filter chi_line (foundation_section (dedupedFoundation (foundationTokens tv gv layers)))
         @ map token_line (emitted_semantic sem)
    \<and> mset (emitted_semantic sem) = mset sem
    \<and> set sem \<subseteq> {v \<in> set tv. layer v = Semantic}
    \<and> (\<forall>(k, e) \<in> set (tokens_semantic (generateTokenMetadata tv gv theme out stamp)).
          \<exists>v \<in> set tv. layer v = Semantic \<and> k = name v \<and> e = variable_entry v)
    \<and> tokens_semantic (generateTokenMetadata tv gv theme out stamp)
        = tokens_semantic (generateTokenMetadata tv gv' theme out' stamp')"
proof -
  have a: "filter chi_line (scss_lines tv gv theme layers stamp)
       = filter chi_line (foundation_section (dedupedFoundation (foundationTokens tv gv layers)))
         @ map token_line (emitted_semantic sem)"
    unfolding sem_def by (rule scss_lines_chi)
  have b: "mset (emitted_semantic sem) = mset sem"
    unfolding emitted_semantic_def by (rule groupSemanticTokens_mset)
  have c: "set sem \<subseteq> {v \<in> set tv. layer v = Semantic}"
    by (auto simp: sem_def semanticTokens_def)
  have d: "\<forall>(k, e) \<in> set (tokens_semantic (generateTokenMetadata tv gv theme out stamp)).
          \<exists>v \<in> set tv. layer v = Semantic \<and> k = name v \<and> e = variable_entry v"
    using semanticEntries_from_theme [of _ _ tv] by (auto simp: generateTokenMetadata_def Let_def)
  have e: "tokens_semantic (generateTokenMetadata tv gv theme out stamp)
        = tokens_semantic (generateTokenMetadata tv gv' theme out' stamp')"
    by (simp add: generateTokenMetadata_def Let_def)
  from a b c d e show ?thesis by blast
qed

theorem semantic_tokens_from_theme_witness:
  "semanticTokens (parseScssVariables theme_file) [Foundation, Semantic] = [text_base]
   \<and> text_base \<in> set (parseScssVariables theme_file)
   \<and> last (filter chi_line (scss_lines (parseScssVariables theme_file) (parseScssVariables global_file)
              ''lumen'' [Foundation, Semantic] example_stamp))
       = ''  --chi-color-text-base: #{$color-text-base}; // Body text''
   \<and> tokens_semantic (generateTokenMetadata (parseScssVariables theme_file)
         (parseScssVariables global_file) ''lumen'' example_output example_stamp)
       = [(''color-text-base'', variable_entry text_base)]
   \<and> tokens_semantic (generateTokenMetadata (parseScssVariables theme_file) [] ''lumen''
         example_output example_stamp)
       = [(''color-text-base'', variable_entry text_base)]"
proof -
  note inst = semantic_tokens_from_theme [where tv = "parseScssVariables theme_file"
      and gv = "parseScssVariables global_file" and gv' = "[]" and theme = "''lumen''"
      and layers = "[Foundation, Semantic]" and out = example_output and out' = example_output
      and stamp = example_stamp and stamp' = example_stamp]
  have s: "semanticTokens (parseScssVariables theme_file) [Foundation, Semantic] = [text_base]"
    unfolding parsed_theme_file by code_simp
  have m: "text_base \<in> set (parseScssVariables theme_file)"
    unfolding parsed_theme_file by simp
  have em: "emitted_semantic [text_base] = [text_base]"
    by code_simp
  have tl: "token_line text_base = ''  --chi-color-text-base: #{$color-text-base}; // Body text''"
    by code_simp
  from inst have "filter chi_line (scss_lines (parseScssVariables theme_file) (parseScssVariables global_file)
              ''lumen'' [Foundation, Semantic] example_stamp)
       = filter chi_line (foundation_section (dedupedFoundation (foundationTokens
             (parseScssVariables theme_file) (parseScssVariables global_file) [Foundation, Semantic])))
         @ map token_line (emitted_semantic (semanticTokens (parseScssVariables theme_file) [Foundation, Semantic]))"
    by blast
  then have l: "last (filter chi_line (scss_lines (parseScssVariables theme_file) (parseScssVariables global_file)
              ''lumen'' [Foundation, Semantic] example_stamp))
       = ''  --chi-color-text-base: #{$color-text-base}; // Body text''"
    using tl by (simp only: s em list.map last_snoc append_Nil2 append.simps)
  have j: "tokens_semantic (generateTokenMetadata (parseScssVariables theme_file)
         (parseScssVariables global_file) ''lumen'' example_output example_stamp)
       = [(''color-text-base'', variable_entry text_base)]"
    unfolding generateTokenMetadata_def Let_def parsed_theme_file by (simp, code_simp)
  from inst have "tokens_semantic (generateTokenMetadata (parseScssVariables theme_file)
         (parseScssVariables global_file) ''lumen'' example_output example_stamp)
       = tokens_semantic (generateTokenMetadata (parseScssVariables theme_file) [] ''lumen''
         example_output example_stamp)"
    by blast
  with j have j': "tokens_semantic (generateTokenMetadata (parseScssVariables theme_file) [] ''lumen''
         example_output example_stamp)
       = [(''color-text-base'', variable_entry text_base)]"
    by simp
  from s m l j j' show ?thesis by blast
qed

text \<open>
  Claim C8. The counts that \<open>generateCssVariablesScss\<close> reports do not match what it
  emits when no foundation token is left. With the layers restricted to the semantic
  layer, on a theme file with one semantic variable, the function reports 59 foundation
  properties, 1 semantic property and 60 properties in total, and writes the total into
  the header of the file, while the generated text holds one custom property
  declaration: the 59 synthetic tokens are counted unconditionally and emitted only
  inside the foundation block, which is skipped when the deduplicated foundation list is
  empty.
\<close>

theorem total_count_counts_absent_synthetic_tokens:
  "totalCount (generateCssVariablesScss (parseScssVariables theme_file) (parseScssVariables global_file)
       ''lumen'' [Semantic] example_stamp) = 60
   \<and> foundationCount (generateCssVariablesScss (parseScssVariables theme_file)
       (parseScssVariables global_file) ''lumen'' [Semantic] example_stamp) = 59
   \<and> semanticCount (generateCssVariablesScss (parseScssVariables theme_file)
       (parseScssVariables global_file) ''lumen'' [Semantic] example_stamp) = 1
   \<and> ''// Total Properties: 60'' \<in> set (split_char CHR 0x0A (scss (generateCssVariablesScss
       (parseScssVariables theme_file) (parseScssVariables global_file) ''lumen'' [Semantic]
       example_stamp)))
   \<and> chi_declarations (scss (generateCssVariablesScss (parseScssVariables theme_file)
       (parseScssVariables global_file) ''lumen'' [Semantic] example_stamp))
       = [''  --chi-color-text-base: #{$color-text-base}; // Body text'']"
proof -
  have f: "foundationTokens (parseScssVariables theme_file) (parseScssVariables global_file) [Semantic] = []"
    unfolding parsed_theme_file parsed_global_file by code_simp
  have d: "dedupedFoundation [] = []"
    by code_simp
  have s: "semanticTokens (parseScssVariables theme_file) [Semantic] = [text_base]"
    unfolding parsed_theme_file by code_simp
  have counts: "foundationCount (generateCssVariablesScss (parseScssVariables theme_file)
       (parseScssVariables global_file) ''lumen'' [Semantic] example_stamp) = 59"
    "semanticCount (generateCssVariablesScss (parseScssVariables theme_file)
       (parseScssVariables global_file) ''lumen'' [Semantic] example_stamp) = 1"
    "totalCount (generateCssVariablesScss (parseScssVariables theme_file)
       (parseScssVariables global_file) ''lumen'' [Semantic] example_stamp) = 60"
    unfolding generateCssVariablesScss_def Let_def f d s synthetic_count_value by simp_all
  have header: "''// Total Properties: 60'' \<in> set (split_char CHR 0x0A (scss (generateCssVariablesScss
       (parseScssVariables theme_file) (parseScssVariables global_file) ''lumen'' [Semantic]
       example_stamp)))"
    unfolding generateCssVariablesScss_def scss_lines_def Let_def f d s synthetic_count_value
    by (simp, code_simp)
  have decls: "chi_declarations (scss (generateCssVariablesScss (parseScssVariables theme_file)
       (parseScssVariables global_file) ''lumen'' [Semantic] example_stamp))
       = [''  --chi-color-text-base: #{$color-text-base}; // Body text'']"
    unfolding generateCssVariablesScss_def scss_lines_def Let_def f d s synthetic_count_value
    by (simp, code_simp)
  from counts header decls show ?thesis by blast
qed


section \<open>Properties of the spacing scale\<close>

lemma spacing_steps_eq:
  "spacing_steps = zip [0..<35] (0 # map (\<lambda>k. of_nat k / 4) [1..<13] @ [7 / 2, 4] @ map of_nat [5..<25])"
  by code_simp

lemma spacing_values:
  "map scssExpression buildSpacingScale =
    [''0'', ''0.25rem'', ''0.5rem'', ''0.75rem'', ''1rem'', ''1.25rem'', ''1.5rem'', ''1.75rem'',
     ''2rem'', ''2.25rem'', ''2.5rem'', ''2.75rem'', ''3rem'', ''3.5rem'', ''4rem'', ''5rem'',
     ''6rem'', ''7rem'', ''8rem'', ''9rem'', ''10rem'', ''11rem'', ''12rem'', ''13rem'', ''14rem'',
     ''15rem'', ''16rem'', ''17rem'', ''18rem'', ''19rem'', ''20rem'', ''21rem'', ''22rem'',
     ''23rem'', ''24rem'']"
  by code_simp

lemma spacing_names:
  "map syn_name buildSpacingScale = map (\<lambda>i. ''spacing-'' @ show_nat i) [0..<35]"
  by code_simp

lemma spacing_notes:
  "list_all (\<lambda>(i, r).
      scssExpression (spacing_token (i, r)) = (if i = 0 then ''0'' else num_str r @ ''rem'')
      \<and> (includes_str (comment_text (spacing_token (i, r))) ''Chi space('' \<longleftrightarrow> (\<exists>k \<in> set [0..<11]. r = of_nat k / 2))
      \<and> list_all (\<lambda>k. r \<noteq> of_nat k / 2 \<or> includes_str (comment_text (spacing_token (i, r))) (''Chi space('' @ show_nat k @ '')'')) [0..<11])
     spacing_steps"
  by code_simp

lemma upto_ten: "k \<in> set [0..<11] \<longleftrightarrow> k \<le> 10"
  by auto

text \<open>
  C9: \<open>buildSpacingScale\<close> returns exactly 35 tokens, named \<open>spacing-0\<close> to \<open>spacing-34\<close>
  in order, the image of the steps with indices 0 to 34 and rem values 0, then 0.25 to 3
  in steps of 0.25, then 3.5 and 4, then the integers 5 to 24. The value is \<open>0\<close> for
  index 0 and the rem value followed by \<open>rem\<close> otherwise. The comment holds the note
  \<open>Chi space(k)\<close> exactly when the rem value is k times 0.5 for some k from 0 to 10.
\<close>

theorem buildSpacingScale_tokens:
  "length buildSpacingScale = 35
   \<and> buildSpacingScale = map spacing_token spacing_steps
   \<and> spacing_steps
       = zip [0..<35] (0 # map (\<lambda>k. of_nat k / 4) [1..<13] @ [7 / 2, 4] @ map of_nat [5..<25])
   \<and> map syn_name buildSpacingScale = map (\<lambda>i. ''spacing-'' @ show_nat i) [0..<35]
   \<and> syn_name (buildSpacingScale ! 0) = ''spacing-0''
   \<and> syn_name (buildSpacingScale ! 34) = ''spacing-34''
   \<and> map scssExpression buildSpacingScale =
        [''0'', ''0.25rem'', ''0.5rem'', ''0.75rem'', ''1rem'', ''1.25rem'', ''1.5rem'', ''1.75rem'',
         ''2rem'', ''2.25rem'', ''2.5rem'', ''2.75rem'', ''3rem'', ''3.5rem'', ''4rem'', ''5rem'',
         ''6rem'', ''7rem'', ''8rem'', ''9rem'', ''10rem'', ''11rem'', ''12rem'', ''13rem'', ''14rem'',
         ''15rem'', ''16rem'', ''17rem'', ''18rem'', ''19rem'', ''20rem'', ''21rem'', ''22rem'',
         ''23rem'', ''24rem'']
   \<and> (\<forall>(i, r) \<in> set spacing_steps.
         scssExpression (spacing_token (i, r)) = (if i = 0 then ''0'' else num_str r @ ''rem'')
         \<and> (includes_str (comment_text (spacing_token (i, r))) ''Chi space(''
              \<longleftrightarrow> (\<exists>k \<le> 10. r = of_nat k / 2))
         \<and> (\<forall>k \<le> 10. r = of_nat k / 2 \<longrightarrow>
               includes_str (comment_text (spacing_token (i, r))) (''Chi space('' @ show_nat k @ '')'')))"
proof -
  have len: "length buildSpacingScale = 35"
    using arg_cong [OF spacing_values, of length] by simp
  have n0: "syn_name (buildSpacingScale ! 0) = ''spacing-0''"
    by code_simp
  have n34: "syn_name (buildSpacingScale ! 34) = ''spacing-34''"
    by code_simp
  have note_facts: "\<forall>(i, r) \<in> set spacing_steps.
         scssExpression (spacing_token (i, r)) = (if i = 0 then ''0'' else num_str r @ ''rem'')
         \<and> (includes_str (comment_text (spacing_token (i, r))) ''Chi space(''
              \<longleftrightarrow> (\<exists>k \<le> 10. r = of_nat k / 2))
         \<and> (\<forall>k \<le> 10. r = of_nat k / 2 \<longrightarrow>
               includes_str (comment_text (spacing_token (i, r))) (''Chi space('' @ show_nat k @ '')''))"
    using spacing_notes unfolding list_all_iff Bex_def Ball_def upto_ten by blast
  show ?thesis
    using len n0 n34 note_facts spacing_steps_eq spacing_names spacing_values
    by (simp only: buildSpacingScale_def simp_thms)
qed

theorem buildSpacingScale_tokens_witness:
  "(2, 1 / 2) \<in> set spacing_steps
   \<and> scssExpression (spacing_token (2, 1 / 2)) = ''0.5rem''
   \<and> includes_str (comment_text (spacing_token (2, 1 / 2))) ''Chi space(1)''
   \<and> (13, 7 / 2) \<in> set spacing_steps
   \<and> includes_str (comment_text (spacing_token (13, 7 / 2))) ''Chi space(7)''
   \<and> (1, 1 / 4) \<in> set spacing_steps
   \<and> \<not> includes_str (comment_text (spacing_token (1, 1 / 4))) ''Chi space(''"
proof -
  note all_steps = buildSpacingScale_tokens [THEN conjunct2, THEN conjunct2, THEN conjunct2,
      THEN conjunct2, THEN conjunct2, THEN conjunct2, THEN conjunct2]
  have m1: "(2, 1 / 2) \<in> set spacing_steps"
    by code_simp
  have m2: "(13, 7 / 2) \<in> set spacing_steps"
    by code_simp
  have m3: "(1, 1 / 4) \<in> set spacing_steps"
    by code_simp
  have v: "scssExpression (spacing_token (2, 1 / 2)) = ''0.5rem''"
    by code_simp
  have s1: "show_nat 1 = ''1''" and s7: "show_nat 7 = ''7''"
    by code_simp+
  have "(1 / 2 :: rat) = of_nat 1 / 2" and "(1::nat) \<le> 10"
    by simp_all
  with bspec [OF all_steps m1]
  have "includes_str (comment_text (spacing_token (2, 1 / 2))) (''Chi space('' @ show_nat 1 @ '')'')"
    unfolding prod.case by blast
  then have a: "includes_str (comment_text (spacing_token (2, 1 / 2))) ''Chi space(1)''"
    unfolding s1 by simp
  have "(7 / 2 :: rat) = of_nat 7 / 2" and "(7::nat) \<le> 10"
    by simp_all
  with bspec [OF all_steps m2]
  have "includes_str (comment_text (spacing_token (13, 7 / 2))) (''Chi space('' @ show_nat 7 @ '')'')"
    unfolding prod.case by blast
  then have b: "includes_str (comment_text (spacing_token (13, 7 / 2))) ''Chi space(7)''"
    unfolding s7 by simp
  have "\<not> (\<exists>k \<le> 10. (1 / 4 :: rat) = of_nat k / 2)"
  proof
    assume "\<exists>k \<le> 10. (1 / 4 :: rat) = of_nat k / 2"
    then obtain k :: nat where "(1 / 4 :: rat) = of_nat k / 2" by blast
    then have "(1 :: rat) = of_nat (2 * k)" by simp
    then have "(1 :: nat) = 2 * k" using of_nat_eq_iff [of 1 "2 * k", where ?'a = rat] by simp
    then show False by presburger
  qed
  with bspec [OF all_steps m3]
  have c: "\<not> includes_str (comment_text (spacing_token (1, 1 / 4))) ''Chi space(''"
    unfolding prod.case by blast
  from m1 m2 m3 v a b c show ?thesis
    by blast
qed


section \<open>Properties of build.js\<close>

text \<open>
  C10: \<open>deleteCssFile\<close> throws exactly when the theme is not one of the seven allowed
  themes, and then the message starts with \<open>[CHI]: Invalid theme\<close> and nothing has been
  done; for an allowed theme it returns normally, it asks for the existence of
  \<open>dist/chi.css\<close> (theme lumen) or \<open>dist/chi-<theme>.css\<close> (any other theme), and
  whatever it does besides is the delete command on that same path and at most one
  console error.
\<close>

theorem deleteCssFile_throws_iff_invalid:
  "allowedThemes = [''lumen'', ''portal'', ''connect'', ''test'', ''colt'', ''brightspeed'', ''centurylink'']
   \<and> (snd (deleteCssFile env tr theme) \<noteq> None \<longleftrightarrow> theme \<notin> set allowedThemes)
   \<and> (theme \<notin> set allowedThemes \<longrightarrow>
        (\<exists>m. deleteCssFile env tr theme = (tr, Some (Error m))
              \<and> prefix ''[CHI]: Invalid theme'' m))
   \<and> (theme \<in> set allowedThemes \<longrightarrow>
        snd (deleteCssFile env tr theme) = None
        \<and> cssFileName theme = (if theme = ''lumen'' then ''chi.css'' else ''chi-'' @ theme @ ''.css'')
        \<and> (\<exists>rest. fst (deleteCssFile env tr theme)
               = tr @ ExistsSync (path_resolve env ''dist'' (cssFileName theme)) # rest
             \<and> (\<forall>e \<in> set rest.
                   e = ExecFileSync (fst (deleteCommand env (path_resolve env ''dist'' (cssFileName theme))))
                         (snd (deleteCommand env (path_resolve env ''dist'' (cssFileName theme))))
                   \<or> (\<exists>m. e = ConsoleError m))))"
proof -
  have a: "allowedThemes = [''lumen'', ''portal'', ''connect'', ''test'', ''colt'', ''brightspeed'', ''centurylink'']"
    by (simp add: allowedThemes_def)
  have b: "snd (deleteCssFile env tr theme) \<noteq> None \<longleftrightarrow> theme \<notin> set allowedThemes"
    by (simp add: deleteCssFile_def Let_def split: option.splits)
  have c: "theme \<notin> set allowedThemes \<Longrightarrow>
        (\<exists>m. deleteCssFile env tr theme = (tr, Some (Error m))
              \<and> prefix ''[CHI]: Invalid theme'' m)"
    by (simp add: deleteCssFile_def)
  have d: "theme \<in> set allowedThemes \<Longrightarrow>
        (\<exists>rest. fst (deleteCssFile env tr theme)
               = tr @ ExistsSync (path_resolve env ''dist'' (cssFileName theme)) # rest
             \<and> (\<forall>e \<in> set rest.
                   e = ExecFileSync (fst (deleteCommand env (path_resolve env ''dist'' (cssFileName theme))))
                         (snd (deleteCommand env (path_resolve env ''dist'' (cssFileName theme))))
                   \<or> (\<exists>m. e = ConsoleError m)))"
    by (simp add: deleteCssFile_def Let_def split: option.splits)
  have e: "cssFileName theme = (if theme = ''lumen'' then ''chi.css'' else ''chi-'' @ theme @ ''.css'')"
    by (simp add: cssFileName_def)
  from a b c d e show ?thesis by blast
qed

theorem deleteCssFile_throws_iff_invalid_witness:
  "''sky'' \<notin> set allowedThemes
   \<and> deleteCssFile posix_env [] ''sky'' = ([], Some (Error ''[CHI]: Invalid theme: sky''))
   \<and> ''colt'' \<in> set allowedThemes
   \<and> deleteCssFile posix_env [] ''colt''
       = ([ExistsSync ''/chi/dist/chi-colt.css'', ExecFileSync ''rm'' [''-f'', ''/chi/dist/chi-colt.css'']], None)"
proof -
  have sky: "''sky'' \<notin> set allowedThemes"
    by (simp add: allowedThemes_def)
  have colt: "''colt'' \<in> set allowedThemes"
    by (simp add: allowedThemes_def)
  from sky deleteCssFile_throws_iff_invalid [of posix_env "[]" "''sky''"]
  obtain m where m: "deleteCssFile posix_env [] ''sky'' = ([], Some (Error m))"
    by blast
  have "deleteCssFile posix_env [] ''sky'' = ([], Some (Error ''[CHI]: Invalid theme: sky''))"
    using m sky by (simp add: deleteCssFile_def)
  moreover have "deleteCssFile posix_env [] ''colt''
       = ([ExistsSync ''/chi/dist/chi-colt.css'', ExecFileSync ''rm'' [''-f'', ''/chi/dist/chi-colt.css'']], None)"
    using colt by (simp add: deleteCssFile_def posix_env_def cssFileName_def
      path_resolve_def path_sep_def deleteCommand_def Let_def)
  ultimately show ?thesis using sky colt by blast
qed

section \<open>Properties of the Popover\<close>

text \<open>
  C6: the popover's lifecycle is show/hide over the boolean \<open>shown\<close>. \<open>show\<close> changes
  nothing at all when the popover is already shown; when it is not shown and the action
  is allowed or forced, \<open>shown\<close> is true afterwards. \<open>hide\<close> changes nothing when the
  popover is not shown; when it is shown and the action is allowed or forced, \<open>shown\<close>
  is false afterwards. \<open>toggle\<close> is \<open>hide()\<close> when shown and \<open>show()\<close> when not.
\<close>

theorem popover_show_hide_toggle:
  "(shown p \<longrightarrow> show_popover p t force = p)
   \<and> (\<not> shown p \<and> (fst (allowConsecutiveActions p t) \<or> force)
        \<longrightarrow> shown (show_popover p t force))
   \<and> (\<not> shown p \<longrightarrow> hide_popover p t force = p)
   \<and> (shown p \<and> (fst (allowConsecutiveActions p t) \<or> force)
        \<longrightarrow> \<not> shown (hide_popover p t force))
   \<and> toggle p t = (if shown p then hide_popover p t False else show_popover p t False)"
  by (auto simp: show_popover_def hide_popover_def toggle_def Let_def split: prod.splits)

theorem popover_show_hide_toggle_witness:
  "\<not> shown fresh_popover
   \<and> fst (allowConsecutiveActions fresh_popover 1000)
   \<and> shown (show_popover fresh_popover 1000 False)
   \<and> hide_popover fresh_popover 1000 False = fresh_popover
   \<and> shown (toggle fresh_popover 1000)
   \<and> show_popover (toggle fresh_popover 1000) 1010 True = toggle fresh_popover 1000
   \<and> \<not> shown (hide_popover (toggle fresh_popover 1000) 1010 True)"
proof -
  have a: "\<not> shown fresh_popover" "fst (allowConsecutiveActions fresh_popover 1000)"
    by (simp_all add: fresh_popover_def allowConsecutiveActions_def)
  have b: "shown (toggle fresh_popover 1000)"
    using a popover_show_hide_toggle [of fresh_popover 1000 False] by simp
  show ?thesis
    using a b popover_show_hide_toggle [of fresh_popover 1000 False]
      popover_show_hide_toggle [of "toggle fresh_popover 1000" 1010 True]
    by simp
qed

section \<open>Properties of the runs\<close>

lemma error_reported_simps:
  "error_reported [] = False"
  "error_reported (xs @ ys) = (error_reported xs \<or> error_reported ys)"
  "error_reported (e # tr) = ((\<exists>m. e = ConsoleError m) \<or> error_reported tr)"
  by (simp_all add: error_reported_def split: effect.splits)

lemma calmI:
  assumes "\<And>tr tr' r. m tr = (tr', r) \<Longrightarrow> \<exists>ext. tr' = tr @ ext \<and> \<not> error_reported ext"
    and "\<And>tr tr' code. m tr = (tr', Exit code) \<Longrightarrow> False"
  shows "calm m"
  unfolding calm_def using assms by blast

lemma calmD:
  assumes "calm m" and "m tr = (tr', r)"
  shows "\<exists>ext. tr' = tr @ ext \<and> \<not> error_reported ext" and "r \<noteq> Exit code"
  using assms unfolding calm_def by blast+

lemma calm_return: "calm (return_io x)"
  by (rule calmI) (simp_all add: return_io_def error_reported_simps)

lemma calm_bind:
  assumes m: "calm m" and f: "\<And>x. calm (f x)"
  shows "calm (bind_io m f)"
proof (rule calmI)
  fix tr tr' r
  assume run: "bind_io m f tr = (tr', r)"
  obtain tr1 r1 where m1: "m tr = (tr1, r1)"
    by (cases "m tr")
  from calmD(1) [OF m m1] obtain ext1 where e1: "tr1 = tr @ ext1" "\<not> error_reported ext1"
    by blast
  show "\<exists>ext. tr' = tr @ ext \<and> \<not> error_reported ext"
  proof (cases r1)
    case (Returned x)
    with run m1 have "f x tr1 = (tr', r)"
      by (simp add: bind_io_def)
    from calmD(1) [OF f this] obtain ext2 where "tr' = tr1 @ ext2" "\<not> error_reported ext2"
      by blast
    with e1 have "tr' = tr @ (ext1 @ ext2) \<and> \<not> error_reported (ext1 @ ext2)"
      by (simp add: error_reported_simps)
    then show ?thesis
      by blast
  next
    case (Thrown err)
    with run m1 have "tr' = tr1"
      by (simp add: bind_io_def)
    with e1 show ?thesis
      by blast
  next
    case (Exit code)
    with run m1 have "tr' = tr1"
      by (simp add: bind_io_def)
    with e1 show ?thesis
      by blast
  qed
next
  fix tr tr' code
  assume run: "bind_io m f tr = (tr', Exit code)"
  obtain tr1 r1 where m1: "m tr = (tr1, r1)"
    by (cases "m tr")
  show False
  proof (cases r1)
    case (Returned x)
    with run m1 have "f x tr1 = (tr', Exit code)"
      by (simp add: bind_io_def)
    from calmD(2) [OF f this] show False
      by blast
  next
    case (Thrown err)
    with run m1 show False
      by (simp add: bind_io_def)
  next
    case (Exit c)
    with calmD(2) [OF m m1] show False
      by blast
  qed
qed

lemma calm_if: "calm m \<Longrightarrow> calm n \<Longrightarrow> calm (if b then m else n)"
  by simp

lemma calm_primitives:
  "calm (exists_file env p)"
  "calm (read_file env p)"
  "calm (write_file env p d)"
  "calm (make_dir env p)"
  "calm (read_dir env p)"
  "calm (copy_file env p q)"
  "calm (json_parse env content)"
  "calm (new_date env)"
  "calm (console_warn msg)"
  by (rule calmI;
      auto simp: exists_file_def read_file_def write_file_def make_dir_def read_dir_def
        copy_file_def json_parse_def new_date_def console_warn_def error_reported_simps
        split: sum.splits option.splits)+

lemma calm_resolveTokenValues: "calm (resolveTokenValues env theme)"
  by (rule calmI; auto simp: resolveTokenValues_def Let_def error_reported_simps split: sum.splits)

lemma calm_process_theme: "calm (process_theme env a gv theme)"
  unfolding process_theme_def Let_def
  by (intro calm_bind calm_if calm_primitives calm_return calm_resolveTokenValues)

lemma calm_process_themes: "calm (process_themes env a gv ts)"
  by (induction ts) (auto intro!: calm_bind calm_if calm_primitives calm_return calm_process_theme)

lemma calm_collect_themes: "calm (collect_themes env ts acc)"
  by (induction ts arbitrary: acc) (auto intro!: calm_bind calm_if calm_primitives calm_return)

lemma calm_copy_files: "calm (copy_files env d files)"
  by (induction files) (auto intro!: calm_bind calm_primitives calm_return)

lemma calm_sync_docs: "calm (sync_docs env ds)"
  by (induction ds) (auto simp: Let_def intro!: calm_bind calm_if calm_primitives calm_return calm_copy_files)









text \<open>\<open>main\<close> after \<open>parseArgs\<close>.\<close>

lemma main_unfold:
  "main env = bind_io (parseArgs env) (\<lambda>a.
     bind_io (read_file env (GLOBAL_VARS_FILE env)) (\<lambda>content.
     bind_io (process_themes env a (parseScssVariables content) (cli_themes a)) (\<lambda>u.
       if \<not> dryRun a \<and> length (cli_themes a) = length THEMES
       then bind_io (collect_themes env (cli_themes a) []) (\<lambda>allThemes.
            bind_io (write_file env (path_join (DIST_TOKENS_DIR env) ''all-themes.json'')
                       (AllThemesJson allThemes)) (\<lambda>u.
              sync_docs env DOCS_REPOS))
       else return_io ())))"
  by (simp add: main_def)

lemma calm_after_args:
  "calm (bind_io (read_file env (GLOBAL_VARS_FILE env)) (\<lambda>content.
     bind_io (process_themes env a (parseScssVariables content) (cli_themes a)) (\<lambda>u.
       if \<not> dryRun a \<and> length (cli_themes a) = length THEMES
       then bind_io (collect_themes env (cli_themes a) []) (\<lambda>allThemes.
            bind_io (write_file env (path_join (DIST_TOKENS_DIR env) ''all-themes.json'')
                       (AllThemesJson allThemes)) (\<lambda>u.
              sync_docs env DOCS_REPOS))
       else return_io ())))"
  by (intro calm_bind calm_if calm_primitives calm_return calm_process_themes
        calm_collect_themes calm_sync_docs)

lemma parse_args_loop_cases:
  "parse_args_loop args a tr = (tr', r) \<Longrightarrow>
     (tr' = tr \<and> (\<exists>a'. r = Returned a')) \<or> (tr' = tr \<and> r = Exit 0)
     \<or> (\<exists>t. tr' = tr @ [ConsoleError (unknown_theme_message t)] \<and> r = Exit 1)"
proof (induction args arbitrary: a)
  case Nil
  then show ?case
    by (auto simp: return_io_def)
next
  case (Cons arg rest)
  then show ?case
    by (auto simp: Let_def bind_io_def console_error_def process_exit_def split: if_splits)
qed

lemma main_cases:
  assumes "main env [] = (tr, r)"
  shows "(r = Exit 0 \<and> tr = [])
       \<or> (\<exists>t. r = Exit 1 \<and> tr = [ConsoleError (unknown_theme_message t)])
       \<or> ((\<forall>code. r \<noteq> Exit code) \<and> \<not> error_reported tr)"
proof -
  obtain tr0 r0 where p: "parseArgs env [] = (tr0, r0)"
    by (cases "parseArgs env []")
  from p have "(tr0 = [] \<and> (\<exists>a'. r0 = Returned a')) \<or> (tr0 = [] \<and> r0 = Exit 0)
     \<or> (\<exists>t. tr0 = [] @ [ConsoleError (unknown_theme_message t)] \<and> r0 = Exit 1)"
    unfolding parseArgs_def by (rule parse_args_loop_cases)
  then consider (ret) a where "tr0 = []" "r0 = Returned a"
    | (asked) "tr0 = []" "r0 = Exit 0"
    | (unknown) t where "tr0 = [ConsoleError (unknown_theme_message t)]" "r0 = Exit 1"
    by auto
  then show ?thesis
  proof cases
    case ret
    with p assms have "bind_io (read_file env (GLOBAL_VARS_FILE env)) (\<lambda>content.
     bind_io (process_themes env a (parseScssVariables content) (cli_themes a)) (\<lambda>u.
       if \<not> dryRun a \<and> length (cli_themes a) = length THEMES
       then bind_io (collect_themes env (cli_themes a) []) (\<lambda>allThemes.
            bind_io (write_file env (path_join (DIST_TOKENS_DIR env) ''all-themes.json'')
                       (AllThemesJson allThemes)) (\<lambda>u.
              sync_docs env DOCS_REPOS))
       else return_io ())) [] = (tr, r)"
      by (simp add: main_unfold bind_io_def [of "parseArgs env"])
    from calmD [OF calm_after_args this] show ?thesis
      by auto
  next
    case asked
    with p assms show ?thesis
      by (simp add: main_unfold bind_io_def [of "parseArgs env"])
  next
    case unknown
    with p assms show ?thesis
      by (auto simp add: main_unfold bind_io_def [of "parseArgs env"])
  qed
qed

lemma run_generator_code:
  "snd (run_generator env) = (if error_reported (fst (run_generator env)) then 1 else 0)"
proof -
  obtain tr r where m: "main env [] = (tr, r)"
    by (cases "main env []")
  from main_cases [OF m] show ?thesis
    using m by (cases r) (auto simp: run_generator_def error_reported_simps)
qed

lemma run_generator_last:
  assumes "error_reported (fst (run_generator env))"
  shows "\<exists>m. last (fst (run_generator env)) = ConsoleError m"
proof -
  obtain tr r where m: "main env [] = (tr, r)"
    by (cases "main env []")
  from main_cases [OF m] assms show ?thesis
    using m by (cases r) (auto simp: run_generator_def error_reported_simps)
qed

lemma spinner_failed_simps:
  "spinner_failed [] = False"
  "spinner_failed (xs @ ys) = (spinner_failed xs \<or> spinner_failed ys)"
  "spinner_failed (e # tr) = ((\<exists>m. e = SpinnerFail m) \<or> spinner_failed tr)"
  by (simp_all add: spinner_failed_def split: effect.splits)

lemma started_simps:
  "started [] = []"
  "started (xs @ ys) = started xs @ started ys"
  "started (e # tr) = (case e of SpinnerStart m \<Rightarrow> [m] | _ \<Rightarrow> []) @ started tr"
  by (simp_all add: started_def)

lemma deleteCssFile_trace:
  "deleteCssFile env tr t = (tr', r) \<Longrightarrow>
     \<exists>ext. tr' = tr @ ext \<and> \<not> spinner_failed ext \<and> started ext = []"
  by (auto simp: deleteCssFile_def Let_def spinner_failed_simps started_simps
        split: if_splits option.splits)

lemma buildTheme_alt:
  "buildTheme env tr theme =
     (let tr0 = tr @ [SpinnerStart (start_message theme)]
      in case deleteCssFile env tr0 theme of
           (tr1, Some err) \<Rightarrow> (tr1 @ [SpinnerFail (fail_message theme err)], Some err)
         | (tr1, None) \<Rightarrow>
             (let tr2 = tr1 @ [ExecFileSync ''cross-env'' (viteArgs theme)]
              in case execFileSync env tr1 ''cross-env'' (viteArgs theme) of
                   Some err \<Rightarrow> (tr2 @ [SpinnerFail (fail_message theme err)], Some err)
                 | None \<Rightarrow>
                     (tr2 @ [SpinnerSucceed (''[CHI]: Build for '' @ theme @ '' theme completed successfully'')],
                      None)))"
  unfolding buildTheme_def start_message_def fail_message_def ..

lemma buildTheme_trace:
  assumes "buildTheme env tr t = (tr', r)"
  shows "\<exists>pre. (case r of
                  None \<Rightarrow> tr' = tr @ SpinnerStart (start_message t) # pre
                | Some err \<Rightarrow> tr' = tr @ SpinnerStart (start_message t) # pre
                                 @ [SpinnerFail (fail_message t err)])
               \<and> \<not> spinner_failed pre \<and> started pre = []"
proof -
  let ?tr0 = "tr @ [SpinnerStart (start_message t)]"
  let ?vite = "ExecFileSync ''cross-env'' (viteArgs t)"
  let ?done = "SpinnerSucceed (''[CHI]: Build for '' @ t @ '' theme completed successfully'')"
  obtain tr1 r1 where d: "deleteCssFile env ?tr0 t = (tr1, r1)"
    by (cases "deleteCssFile env ?tr0 t")
  from deleteCssFile_trace [OF d] obtain ext
    where ext: "tr1 = ?tr0 @ ext" and q1: "\<not> spinner_failed ext" and q2: "started ext = []"
    by blast
  show ?thesis
  proof (cases r1)
    case (Some err)
    with assms d have "(tr', r) = (tr1 @ [SpinnerFail (fail_message t err)], Some err)"
      by (simp add: buildTheme_alt Let_def)
    then have r: "r = Some err"
      and t: "tr' = tr @ SpinnerStart (start_message t) # ext @ [SpinnerFail (fail_message t err)]"
      using ext by simp_all
    from t q1 q2 show ?thesis
      unfolding r option.case by blast
  next
    case None
    show ?thesis
    proof (cases "execFileSync env tr1 ''cross-env'' (viteArgs t)")
      case (Some err)
      with assms d None
      have "(tr', r) = ((tr1 @ [?vite]) @ [SpinnerFail (fail_message t err)], Some err)"
        by (simp add: buildTheme_alt Let_def)
      then have r: "r = Some err"
        and t: "tr' = tr @ SpinnerStart (start_message t) # (ext @ [?vite])
                 @ [SpinnerFail (fail_message t err)]"
        using ext by simp_all
      have "\<not> spinner_failed (ext @ [?vite])" and "started (ext @ [?vite]) = []"
        using q1 q2 by (simp_all add: spinner_failed_simps started_simps)
      with t show ?thesis
        unfolding r option.case by blast
    next
      case vite: None
      with assms d None
      have "(tr', r) = ((tr1 @ [?vite]) @ [?done], None)"
        by (simp add: buildTheme_alt Let_def)
      then have r: "r = None"
        and t: "tr' = tr @ SpinnerStart (start_message t) # (ext @ [?vite, ?done])"
        using ext by simp_all
      have "\<not> spinner_failed (ext @ [?vite, ?done])" and "started (ext @ [?vite, ?done]) = []"
        using q1 q2 by (simp_all add: spinner_failed_simps started_simps)
      with t show ?thesis
        unfolding r option.case by blast
    qed
  qed
qed

lemma buildAllThemes_trace:
  "buildAllThemes env tr ts = (tr', r) \<Longrightarrow>
     \<exists>ext. tr' = tr @ ext \<and>
       (case r of
          None \<Rightarrow> \<not> spinner_failed ext \<and> started ext = map start_message ts
        | Some err \<Rightarrow>
            \<exists>finished t rest pre. ts = finished @ t # rest
              \<and> ext = pre @ [SpinnerFail (fail_message t err)]
              \<and> started pre = map start_message (finished @ [t]))"
proof (induction ts arbitrary: tr tr')
  case Nil
  then show ?case
    by (auto simp: spinner_failed_simps started_simps)
next
  case (Cons t ts)
  obtain tr1 r1 where b: "buildTheme env tr t = (tr1, r1)"
    by (cases "buildTheme env tr t")
  from buildTheme_trace [OF b] obtain pre
    where pre: "case r1 of
                  None \<Rightarrow> tr1 = tr @ SpinnerStart (start_message t) # pre
                | Some err \<Rightarrow> tr1 = tr @ SpinnerStart (start_message t) # pre
                                 @ [SpinnerFail (fail_message t err)]"
      and quiet: "\<not> spinner_failed pre" "started pre = []"
    by blast
  show ?case
  proof (cases r1)
    case (Some err)
    with Cons.prems b have r: "r = Some err" and t: "tr' = tr1"
      by simp_all
    from pre Some have "tr1 = tr @ (SpinnerStart (start_message t) # pre) @ [SpinnerFail (fail_message t err)]"
      by simp
    moreover have "started (SpinnerStart (start_message t) # pre) = map start_message ([] @ [t])"
      using quiet by (simp add: started_simps)
    moreover have "t # ts = [] @ t # ts"
      by simp
    ultimately show ?thesis
      unfolding r t option.case by blast
  next
    case None
    with Cons.prems b have rest: "buildAllThemes env tr1 ts = (tr', r)"
      by simp
    from pre None have tr1: "tr1 = tr @ SpinnerStart (start_message t) # pre"
      by simp
    from Cons.IH [OF rest] obtain ext where ext: "tr' = tr1 @ ext"
      and c: "case r of
          None \<Rightarrow> \<not> spinner_failed ext \<and> started ext = map start_message ts
        | Some err \<Rightarrow>
            \<exists>finished u rest pre. ts = finished @ u # rest
              \<and> ext = pre @ [SpinnerFail (fail_message u err)]
              \<and> started pre = map start_message (finished @ [u])"
      by blast
    have tr': "tr' = tr @ (SpinnerStart (start_message t) # pre @ ext)"
      using ext tr1 by simp
    show ?thesis
    proof (cases r)
      case n: None
      with c quiet have "\<not> spinner_failed (SpinnerStart (start_message t) # pre @ ext)"
        and "started (SpinnerStart (start_message t) # pre @ ext) = map start_message (t # ts)"
        by (simp_all add: spinner_failed_simps started_simps)
      with tr' show ?thesis
        unfolding n option.case by blast
    next
      case s: (Some err)
      with c obtain finished u rest p where f: "ts = finished @ u # rest"
        "ext = p @ [SpinnerFail (fail_message u err)]"
        "started p = map start_message (finished @ [u])"
        by auto
      have "t # ts = (t # finished) @ u # rest"
        using f by simp
      moreover have "SpinnerStart (start_message t) # pre @ ext
          = (SpinnerStart (start_message t) # pre @ p) @ [SpinnerFail (fail_message u err)]"
        using f by simp
      moreover have "started (SpinnerStart (start_message t) # pre @ p)
          = map start_message ((t # finished) @ [u])"
        using f quiet by (simp add: started_simps)
      ultimately show ?thesis
        unfolding s option.case using tr' by blast
    qed
  qed
qed

lemma build_main_code:
  "snd (build_main env) = (if spinner_failed (fst (build_main env)) then 1 else 0)"
proof -
  obtain tr r where b: "buildAllThemes env [] (themes env) = (tr, r)"
    by (cases "buildAllThemes env [] (themes env)")
  from buildAllThemes_trace [OF b] show ?thesis
    using b by (cases r) (auto simp: build_main_def spinner_failed_simps)
qed

lemma build_main_last:
  assumes "spinner_failed (fst (build_main env))"
  shows "\<exists>m. last (fst (build_main env)) = SpinnerFail m"
proof -
  obtain tr r where b: "buildAllThemes env [] (themes env) = (tr, r)"
    by (cases "buildAllThemes env [] (themes env)")
  from buildAllThemes_trace [OF b] assms show ?thesis
    using b by (cases r) (auto simp: build_main_def spinner_failed_simps)
qed

lemma buildTheme_succeeds:
  assumes "t \<in> set allowedThemes" and "\<And>tr. execFileSync env tr ''cross-env'' (viteArgs t) = None"
  shows "snd (buildTheme env tr t) = None"
proof -
  obtain tr1 r1 where d: "deleteCssFile env (tr @ [SpinnerStart (start_message t)]) t = (tr1, r1)"
    by (cases "deleteCssFile env (tr @ [SpinnerStart (start_message t)]) t")
  with assms(1) have "r1 = None"
    by (simp add: deleteCssFile_def Let_def split: if_splits option.splits)
  with d assms(2) show ?thesis
    by (simp add: buildTheme_alt Let_def)
qed

lemma buildAllThemes_succeeds:
  assumes "\<forall>t \<in> set ts. t \<in> set allowedThemes
             \<and> (\<forall>tr. execFileSync env tr ''cross-env'' (viteArgs t) = None)"
  shows "snd (buildAllThemes env tr ts) = None"
  using assms
proof (induction ts arbitrary: tr)
  case Nil
  show ?case
    by simp
next
  case (Cons t ts)
  then have "snd (buildTheme env tr t) = None"
    by (intro buildTheme_succeeds) simp_all
  then obtain tr1 where "buildTheme env tr t = (tr1, None)"
    by (cases "buildTheme env tr t") simp
  with Cons show ?case
    by simp
qed

lemma build_main_succeeds:
  assumes "\<forall>t \<in> set (themes env). t \<in> set allowedThemes
             \<and> (\<forall>tr. execFileSync env tr ''cross-env'' (viteArgs t) = None)"
  shows "snd (build_main env) = 0"
  using buildAllThemes_succeeds [OF assms, of "[]"]
  by (cases "buildAllThemes env [] (themes env)") (simp add: build_main_def)

lemma failures_append:
  "failures env tr (xs @ ys) = failures env tr xs @ failures env (tr @ xs) ys"
  by (induction xs arbitrary: tr) simp_all

lemma last_path_join: "f \<noteq> [] \<Longrightarrow> last (path_join d f) = last f"
  by (simp add: path_join_def)

lemma json_path_last:
  assumes "p \<in> set (map (jsonPath_of env) THEMES)"
  shows "last p = CHR ''n''"
proof -
  from assms obtain theme where "p = path_join (DIST_TOKENS_DIR env) (theme @ ''.json'')"
    by (auto simp: jsonPath_of_def)
  then show ?thesis
    by (simp add: last_path_join)
qed

lemma not_json_paths:
  "varsFile env theme \<notin> set (map (jsonPath_of env) THEMES)"
  "GLOBAL_VARS_FILE env \<notin> set (map (jsonPath_of env) THEMES)"
proof -
  have "last (varsFile env theme) = CHR ''s''"
    by (simp add: varsFile_def last_path_join)
  then show "varsFile env theme \<notin> set (map (jsonPath_of env) THEMES)"
    using json_path_last [of "varsFile env theme" env] by auto
  have "last (GLOBAL_VARS_FILE env) = CHR ''s''"
    by (simp add: GLOBAL_VARS_FILE_def last_path_join)
  then show "GLOBAL_VARS_FILE env \<notin> set (map (jsonPath_of env) THEMES)"
    using json_path_last [of "GLOBAL_VARS_FILE env" env] by auto
qed

lemma failure_simps:
  "failure env tr (ExistsSync p) = None"
  "failure env tr (ConsoleWarn m) = None"
  "failure env tr (ConsoleError m) = None"
  "failure env tr (SassCompile p) = None"
  "failure env tr NewDate = None"
  "failure env tr (WriteFileSync p d) = fs_writeFileSync env tr p d"
  "failure env tr (MkdirSync p) = fs_mkdirSync env tr p"
  "failure env tr (CopyFileSync p q) = fs_copyFileSync env tr p q"
  "failure env tr (ReaddirSync p)
     = (case fs_readdirSync env tr p of Inl err \<Rightarrow> Some err | Inr files \<Rightarrow> None)"
  by (simp_all add: failure_def)

lemma settled_simps:
  "settled env tr ext (Returned x) = (failures env tr ext = [])"
  "settled env tr ext (Exit code) = (failures env tr ext = [])"
  "settled env tr ext (Thrown err)
     = (ext \<noteq> [] \<and> failures env tr (butlast ext) = []
        \<and> failure env (tr @ butlast ext) (last ext) = Some err)"
  by (simp_all add: settled_def)

lemma settled_prepend:
  assumes "failures env tr ext1 = []" and "settled env (tr @ ext1) ext2 r"
  shows "settled env tr (ext1 @ ext2) r"
proof (cases r)
  case (Returned x)
  with assms show ?thesis
    by (simp add: settled_simps failures_append)
next
  case (Exit code)
  with assms show ?thesis
    by (simp add: settled_simps failures_append)
next
  case (Thrown err)
  with assms(2) have ne: "ext2 \<noteq> []" and f: "failures env (tr @ ext1) (butlast ext2) = []"
    and l: "failure env ((tr @ ext1) @ butlast ext2) (last ext2) = Some err"
    by (simp_all add: settled_simps)
  from ne have "butlast (ext1 @ ext2) = ext1 @ butlast ext2" and "last (ext1 @ ext2) = last ext2"
    by (simp_all add: butlast_append)
  with ne f l assms(1) Thrown show ?thesis
    by (simp add: settled_simps failures_append)
qed

lemma accountableI:
  assumes "\<And>tr tr' r. m tr = (tr', r) \<Longrightarrow> \<exists>ext. tr' = tr @ ext \<and> settled env tr ext r"
  shows "accountable env m"
  unfolding accountable_def using assms by blast

lemma accountableD:
  assumes "accountable env m" and "m tr = (tr', r)"
  obtains ext where "tr' = tr @ ext" and "settled env tr ext r"
  using assms unfolding accountable_def by blast

lemma accountable_return: "accountable env (return_io x)"
  by (rule accountableI) (simp add: return_io_def settled_simps)

lemma accountable_bind:
  assumes m: "accountable env m" and f: "\<And>x. accountable env (f x)"
  shows "accountable env (bind_io m f)"
proof (rule accountableI)
  fix tr tr' r
  assume run: "bind_io m f tr = (tr', r)"
  obtain tr1 r1 where m1: "m tr = (tr1, r1)"
    by (cases "m tr")
  from m m1 obtain ext1 where e1: "tr1 = tr @ ext1" and s1: "settled env tr ext1 r1"
    by (rule accountableD)
  show "\<exists>ext. tr' = tr @ ext \<and> settled env tr ext r"
  proof (cases r1)
    case (Returned x)
    with run m1 have fx: "f x tr1 = (tr', r)"
      by (simp add: bind_io_def)
    from f fx obtain ext2 where e2: "tr' = tr1 @ ext2" and s2: "settled env tr1 ext2 r"
      by (rule accountableD)
    from s1 Returned have "failures env tr ext1 = []"
      by (simp add: settled_simps)
    with s2 e1 have "settled env tr (ext1 @ ext2) r"
      by (intro settled_prepend) simp_all
    with e1 e2 show ?thesis
      by simp
  next
    case (Thrown err)
    with run m1 have "tr' = tr1" "r = Thrown err"
      by (simp_all add: bind_io_def)
    with e1 s1 Thrown show ?thesis
      by (auto simp: settled_simps)
  next
    case (Exit code)
    with run m1 have "tr' = tr1" "r = Exit code"
      by (simp_all add: bind_io_def)
    with e1 s1 Exit show ?thesis
      by (auto simp: settled_simps)
  qed
qed

lemma accountable_if:
  "accountable env m \<Longrightarrow> accountable env n \<Longrightarrow> accountable env (if b then m else n)"
  by simp

lemma accountable_primitives:
  "accountable env (exists_file env p)"
  "accountable env (write_file env p d)"
  "accountable env (make_dir env p)"
  "accountable env (read_dir env p)"
  "accountable env (copy_file env p q)"
  "accountable env (new_date env)"
  "accountable env (console_warn msg)"
  "accountable env (console_error msg)"
  "accountable env (resolveTokenValues env theme)"
  by (rule accountableI;
      auto simp: exists_file_def write_file_def make_dir_def read_dir_def copy_file_def
        new_date_def console_warn_def console_error_def resolveTokenValues_def Let_def
        settled_simps failure_simps
        split: sum.splits option.splits)+

lemma accountable_read_file:
  assumes "p \<notin> set (map (jsonPath_of env) THEMES)"
  shows "accountable env (read_file env p)"
proof (rule accountableI)
  fix tr tr' r
  assume "read_file env p tr = (tr', r)"
  with assms show "\<exists>ext. tr' = tr @ ext \<and> settled env tr ext r"
    by (cases "fs_readFileSync env tr p") (auto simp: read_file_def settled_simps failure_def)
qed

lemma accountable_read_parse:
  assumes p: "p \<in> set (map (jsonPath_of env) THEMES)"
    and k: "\<And>content. accountable env (k content)"
  shows "accountable env
           (bind_io (read_file env p) (\<lambda>content. bind_io (json_parse env content) (\<lambda>u. k content)))"
proof (rule accountableI)
  fix tr tr' r
  assume run: "bind_io (read_file env p)
      (\<lambda>content. bind_io (json_parse env content) (\<lambda>u. k content)) tr = (tr', r)"
  show "\<exists>ext. tr' = tr @ ext \<and> settled env tr ext r"
  proof (cases "fs_readFileSync env tr p")
    case (Inl err)
    with run have "tr' = tr @ [ReadFileSync p]" "r = Thrown err"
      by (simp_all add: bind_io_def read_file_def)
    moreover have "failure env tr (ReadFileSync p) = Some err"
      using Inl by (simp add: failure_def)
    ultimately show ?thesis
      by (simp add: settled_simps)
  next
    case (Inr content)
    show ?thesis
    proof (cases "JSON_parse env content")
      case (Some err)
      with run Inr have "tr' = tr @ [ReadFileSync p]" "r = Thrown err"
        by (simp_all add: bind_io_def read_file_def json_parse_def)
      moreover have "failure env tr (ReadFileSync p) = Some err"
        using Inr Some p by (simp add: failure_def)
      ultimately show ?thesis
        by (simp add: settled_simps)
    next
      case None
      with run Inr have kr: "k content (tr @ [ReadFileSync p]) = (tr', r)"
        by (simp add: bind_io_def read_file_def json_parse_def)
      from k kr obtain ext2 where e2: "tr' = (tr @ [ReadFileSync p]) @ ext2"
        and s2: "settled env (tr @ [ReadFileSync p]) ext2 r"
        by (rule accountableD)
      have "failures env tr [ReadFileSync p] = []"
        using Inr None p by (simp add: failure_def)
      with s2 have "settled env tr ([ReadFileSync p] @ ext2) r"
        by (intro settled_prepend) simp_all
      with e2 show ?thesis
        by simp
    qed
  qed
qed

lemma accountable_process_theme: "accountable env (process_theme env a gv theme)"
  unfolding process_theme_def Let_def
  by (intro accountable_bind accountable_if accountable_primitives accountable_return
        accountable_read_file not_json_paths)

lemma accountable_process_themes: "accountable env (process_themes env a gv ts)"
  by (induction ts)
     (auto intro!: accountable_bind accountable_if accountable_primitives accountable_return
        accountable_process_theme)

lemma accountable_collect_themes:
  "set ts \<subseteq> set THEMES \<Longrightarrow> accountable env (collect_themes env ts acc)"
proof (induction ts arbitrary: acc)
  case Nil
  show ?case
    by (simp add: accountable_return)
next
  case (Cons theme rest)
  then have p: "jsonPath_of env theme \<in> set (map (jsonPath_of env) THEMES)"
    and ih: "\<And>acc. accountable env (collect_themes env rest acc)"
    by auto
  have "accountable env
          (bind_io (read_file env (jsonPath_of env theme))
             (\<lambda>content. bind_io (json_parse env content)
                (\<lambda>u. collect_themes env rest (AList.update theme content acc))))"
    using p ih by (rule accountable_read_parse)
  with ih show ?case
    by (auto intro!: accountable_bind accountable_if accountable_primitives)
qed

lemma accountable_copy_files: "accountable env (copy_files env d files)"
  by (induction files) (auto intro!: accountable_bind accountable_primitives accountable_return)

lemma accountable_sync_docs: "accountable env (sync_docs env ds)"
  by (induction ds)
     (auto simp: Let_def intro!: accountable_bind accountable_if accountable_primitives
        accountable_return accountable_copy_files)

lemma accountable_after_args:
  assumes "set (cli_themes a) \<subseteq> set THEMES"
  shows "accountable env (bind_io (read_file env (GLOBAL_VARS_FILE env)) (\<lambda>content.
     bind_io (process_themes env a (parseScssVariables content) (cli_themes a)) (\<lambda>u.
       if \<not> dryRun a \<and> length (cli_themes a) = length THEMES
       then bind_io (collect_themes env (cli_themes a) []) (\<lambda>allThemes.
            bind_io (write_file env (path_join (DIST_TOKENS_DIR env) ''all-themes.json'')
                       (AllThemesJson allThemes)) (\<lambda>u.
              sync_docs env DOCS_REPOS))
       else return_io ())))"
  by (intro accountable_bind accountable_if accountable_primitives accountable_return
        accountable_process_themes accountable_collect_themes accountable_sync_docs
        accountable_read_file not_json_paths assms)

lemma parse_args_loop_themes:
  "parse_args_loop args a tr = (tr', Returned a') \<Longrightarrow> set (cli_themes a) \<subseteq> set THEMES
   \<Longrightarrow> set (cli_themes a') \<subseteq> set THEMES"
proof (induction args arbitrary: a)
  case Nil
  then show ?case
    by (auto simp: return_io_def)
next
  case (Cons arg rest)
  then show ?case
    by (auto simp: Let_def bind_io_def console_error_def process_exit_def split: if_splits)
qed

lemma parseArgs_themes:
  "parseArgs env tr = (tr', Returned a) \<Longrightarrow> set (cli_themes a) \<subseteq> set THEMES"
  unfolding parseArgs_def by (erule parse_args_loop_themes) simp

lemma goes_on_Cons:
  "goes_on env tr theme err (e1 # e2 # rest) \<longleftrightarrow>
     e1 = ConsoleWarn (resolve_message theme err) \<and> e2 = MkdirSync (DIST_TOKENS_DIR env)
     \<and> (fs_mkdirSync env (tr @ [ConsoleWarn (resolve_message theme err)]) (DIST_TOKENS_DIR env) = None
          \<longrightarrow> (\<exists>md rest'. rest = WriteFileSync (jsonPath_of env theme) (MetadataJson md) # rest'))"
proof (cases "\<exists>m. e1 = ConsoleWarn m")
  case False
  then show ?thesis
    by (cases e1) (simp_all add: goes_on_def)
next
  case True
  then obtain m where e1: "e1 = ConsoleWarn m"
    by blast
  show ?thesis
  proof (cases "\<exists>d. e2 = MkdirSync d")
    case False
    then show ?thesis
      by (cases e2) (simp_all add: goes_on_def e1)
  next
    case True
    then obtain d where e2: "e2 = MkdirSync d"
      by blast
    have w: "(case rest of
                WriteFileSync q (MetadataJson md) # rest' \<Rightarrow> q = jsonPath_of env theme
              | _ \<Rightarrow> False)
             \<longleftrightarrow> (\<exists>md rest'. rest = WriteFileSync (jsonPath_of env theme) (MetadataJson md) # rest')"
    proof (cases rest)
      case Nil
      then show ?thesis
        by simp
    next
      case (Cons e3 rest')
      show ?thesis
      proof (cases "\<exists>q d. e3 = WriteFileSync q d")
        case False
        then show ?thesis
          by (cases e3) (simp_all add: Cons)
      next
        case True
        then obtain q fd where "e3 = WriteFileSync q fd"
          by blast
        then show ?thesis
          by (cases fd) (auto simp: Cons)
      qed
    qed
    show ?thesis
      unfolding goes_on_def e1 e2 list.case effect.case w
      by (cases "fs_mkdirSync env (tr @ [ConsoleWarn m]) d") auto
  qed
qed

lemma goes_on_short:
  "\<not> goes_on env tr theme err []"
  "\<not> goes_on env tr theme err [e]"
  by (simp add: goes_on_def, cases e, simp_all add: goes_on_def)

lemma goes_on_append: "goes_on env tr theme err ext \<Longrightarrow> goes_on env tr theme err (ext @ ys)"
proof (cases ext)
  case Nil
  then show "goes_on env tr theme err ext \<Longrightarrow> ?thesis"
    by (simp add: goes_on_short)
next
  case (Cons e1 ext1)
  show "goes_on env tr theme err ext \<Longrightarrow> ?thesis"
  proof (cases ext1)
    case Nil
    with Cons show "goes_on env tr theme err ext \<Longrightarrow> ?thesis"
      by (simp add: goes_on_short)
  next
    case c2: (Cons e2 rest)
    assume "goes_on env tr theme err ext"
    with Cons c2 show ?thesis
      by (auto simp: goes_on_Cons)
  qed
qed

lemma sass_failures_reported_append:
  "sass_failures_reported env tr xs \<Longrightarrow> sass_failures_reported env (tr @ xs) ys
   \<Longrightarrow> sass_failures_reported env tr (xs @ ys)"
proof (induction xs arbitrary: tr)
  case Nil
  then show ?case
    by simp
next
  case (Cons e xs)
  from Cons.prems have "sass_failures_reported env (tr @ [e]) xs"
    and "sass_failures_reported env ((tr @ [e]) @ xs) ys"
    by simp_all
  then have tl: "sass_failures_reported env (tr @ [e]) (xs @ ys)"
    by (rule Cons.IH)
  from Cons.prems(1)
  have "case e of
          SassCompile p \<Rightarrow>
            (case sass_compile env tr p of
               Inl err \<Rightarrow>
                 list_ex (\<lambda>theme. p = scssPath_of env theme \<and> goes_on env (tr @ [e]) theme err (xs @ ys))
                   THEMES
             | Inr resolved \<Rightarrow> True)
        | _ \<Rightarrow> True"
    by (auto simp: list_ex_iff intro: goes_on_append split: effect.splits sum.splits)
  with tl show ?case
    by simp
qed

lemma heedfulI:
  assumes "\<And>tr tr' r. m tr = (tr', r) \<Longrightarrow> \<exists>ext. tr' = tr @ ext \<and> sass_failures_reported env tr ext"
  shows "heedful env m"
  unfolding heedful_def using assms by blast

lemma heedfulD:
  assumes "heedful env m" and "m tr = (tr', r)"
  obtains ext where "tr' = tr @ ext" and "sass_failures_reported env tr ext"
  using assms unfolding heedful_def by blast

lemma heedful_return: "heedful env (return_io x)"
  by (rule heedfulI) (simp add: return_io_def)

lemma heedful_bind:
  assumes m: "heedful env m" and f: "\<And>x. heedful env (f x)"
  shows "heedful env (bind_io m f)"
proof (rule heedfulI)
  fix tr tr' r
  assume run: "bind_io m f tr = (tr', r)"
  obtain tr1 r1 where m1: "m tr = (tr1, r1)"
    by (cases "m tr")
  from m m1 obtain ext1 where e1: "tr1 = tr @ ext1" and s1: "sass_failures_reported env tr ext1"
    by (rule heedfulD)
  show "\<exists>ext. tr' = tr @ ext \<and> sass_failures_reported env tr ext"
  proof (cases r1)
    case (Returned x)
    with run m1 have fx: "f x tr1 = (tr', r)"
      by (simp add: bind_io_def)
    from f fx obtain ext2 where e2: "tr' = tr1 @ ext2" and s2: "sass_failures_reported env tr1 ext2"
      by (rule heedfulD)
    from s1 s2 e1 have "sass_failures_reported env tr (ext1 @ ext2)"
      by (intro sass_failures_reported_append) simp_all
    with e1 e2 show ?thesis
      by simp
  next
    case (Thrown err)
    with run m1 have "tr' = tr1"
      by (simp add: bind_io_def)
    with e1 s1 show ?thesis
      by blast
  next
    case (Exit code)
    with run m1 have "tr' = tr1"
      by (simp add: bind_io_def)
    with e1 s1 show ?thesis
      by blast
  qed
qed

lemma heedful_if:
  "heedful env m \<Longrightarrow> heedful env n \<Longrightarrow> heedful env (if b then m else n)"
  by simp

lemma heedful_primitives:
  "heedful env (exists_file env p)"
  "heedful env (read_file env p)"
  "heedful env (write_file env p d)"
  "heedful env (make_dir env p)"
  "heedful env (read_dir env p)"
  "heedful env (copy_file env p q)"
  "heedful env (json_parse env content)"
  "heedful env (new_date env)"
  "heedful env (console_warn msg)"
  "heedful env (console_error msg)"
  by (rule heedfulI;
      simp add: exists_file_def read_file_def write_file_def make_dir_def read_dir_def
        copy_file_def json_parse_def new_date_def console_warn_def console_error_def)+

text \<open>The call of the compiler with the two statements that follow it in \<open>main\<close>.\<close>

lemma heedful_resolve_write:
  assumes "theme \<in> set THEMES"
  shows "heedful env
           (bind_io (resolveTokenValues env theme) (\<lambda>resolvedMap.
            bind_io (make_dir env (DIST_TOKENS_DIR env)) (\<lambda>u.
            write_file env (jsonPath_of env theme) (MetadataJson (g resolvedMap)))))"
proof (rule heedfulI)
  fix tr tr' r
  assume "bind_io (resolveTokenValues env theme) (\<lambda>resolvedMap.
            bind_io (make_dir env (DIST_TOKENS_DIR env)) (\<lambda>u.
            write_file env (jsonPath_of env theme) (MetadataJson (g resolvedMap)))) tr = (tr', r)"
  with assms show "\<exists>ext. tr' = tr @ ext \<and> sass_failures_reported env tr ext"
    by (auto simp: bind_io_def resolveTokenValues_def make_dir_def write_file_def Let_def
          scssPath_of_def goes_on_Cons list_ex_iff
          intro!: bexI [of _ theme] split: sum.splits option.splits)
qed

lemma heedful_process_theme:
  assumes "theme \<in> set THEMES"
  shows "heedful env (process_theme env a gv theme)"
  unfolding process_theme_def Let_def
  by (intro heedful_resolve_write assms heedful_bind heedful_if heedful_primitives heedful_return)

lemma heedful_process_themes:
  "set ts \<subseteq> set THEMES \<Longrightarrow> heedful env (process_themes env a gv ts)"
  by (induction ts)
     (auto intro!: heedful_bind heedful_if heedful_primitives heedful_return heedful_process_theme)

lemma heedful_collect_themes: "heedful env (collect_themes env ts acc)"
  by (induction ts arbitrary: acc)
     (auto intro!: heedful_bind heedful_if heedful_primitives heedful_return)

lemma heedful_copy_files: "heedful env (copy_files env d files)"
  by (induction files) (auto intro!: heedful_bind heedful_primitives heedful_return)

lemma heedful_sync_docs: "heedful env (sync_docs env ds)"
  by (induction ds)
     (auto simp: Let_def intro!: heedful_bind heedful_if heedful_primitives heedful_return
        heedful_copy_files)

lemma heedful_after_args:
  assumes "set (cli_themes a) \<subseteq> set THEMES"
  shows "heedful env (bind_io (read_file env (GLOBAL_VARS_FILE env)) (\<lambda>content.
     bind_io (process_themes env a (parseScssVariables content) (cli_themes a)) (\<lambda>u.
       if \<not> dryRun a \<and> length (cli_themes a) = length THEMES
       then bind_io (collect_themes env (cli_themes a) []) (\<lambda>allThemes.
            bind_io (write_file env (path_join (DIST_TOKENS_DIR env) ''all-themes.json'')
                       (AllThemesJson allThemes)) (\<lambda>u.
              sync_docs env DOCS_REPOS))
       else return_io ())))"
  by (intro heedful_bind heedful_if heedful_primitives heedful_return
        heedful_process_themes heedful_collect_themes heedful_sync_docs assms)

text \<open>A run of \<open>main\<close>: the three ways it ends.\<close>

lemma main_settled:
  assumes "main env [] = (tr, r)"
  shows "(r = Exit 0 \<and> tr = [])
       \<or> (\<exists>t. r = Exit 1 \<and> tr = [ConsoleError (unknown_theme_message t)])
       \<or> ((\<forall>code. r \<noteq> Exit code) \<and> \<not> error_reported tr \<and> settled env [] tr r
           \<and> sass_failures_reported env [] tr)"
proof -
  obtain tr0 r0 where p: "parseArgs env [] = (tr0, r0)"
    by (cases "parseArgs env []")
  from p have "(tr0 = [] \<and> (\<exists>a'. r0 = Returned a')) \<or> (tr0 = [] \<and> r0 = Exit 0)
     \<or> (\<exists>t. tr0 = [] @ [ConsoleError (unknown_theme_message t)] \<and> r0 = Exit 1)"
    unfolding parseArgs_def by (rule parse_args_loop_cases)
  then consider (ret) a where "tr0 = []" "r0 = Returned a"
    | (asked) "tr0 = []" "r0 = Exit 0"
    | (unknown) t where "tr0 = [ConsoleError (unknown_theme_message t)]" "r0 = Exit 1"
    by auto
  then show ?thesis
  proof cases
    case ret
    let ?rest = "bind_io (read_file env (GLOBAL_VARS_FILE env)) (\<lambda>content.
     bind_io (process_themes env a (parseScssVariables content) (cli_themes a)) (\<lambda>u.
       if \<not> dryRun a \<and> length (cli_themes a) = length THEMES
       then bind_io (collect_themes env (cli_themes a) []) (\<lambda>allThemes.
            bind_io (write_file env (path_join (DIST_TOKENS_DIR env) ''all-themes.json'')
                       (AllThemesJson allThemes)) (\<lambda>u.
              sync_docs env DOCS_REPOS))
       else return_io ()))"
    from ret p have sub: "set (cli_themes a) \<subseteq> set THEMES"
      by (intro parseArgs_themes [of env "[]" "[]"]) simp
    from ret p assms have run: "?rest [] = (tr, r)"
      by (simp add: main_unfold bind_io_def [of "parseArgs env"])
    from calmD [OF calm_after_args run] have 1: "\<forall>code. r \<noteq> Exit code" and 2: "\<not> error_reported tr"
      by auto
    from accountable_after_args [OF sub] run obtain ext where "tr = [] @ ext" "settled env [] ext r"
      by (rule accountableD)
    then have 3: "settled env [] tr r"
      by simp
    from heedful_after_args [OF sub] run obtain ext where "tr = [] @ ext" "sass_failures_reported env [] ext"
      by (rule heedfulD)
    then have 4: "sass_failures_reported env [] tr"
      by simp
    from 1 2 3 4 show ?thesis
      by blast
  next
    case asked
    with p assms show ?thesis
      by (simp add: main_unfold bind_io_def [of "parseArgs env"])
  next
    case unknown
    with p assms show ?thesis
      by (auto simp add: main_unfold bind_io_def [of "parseArgs env"])
  qed
qed

lemma failures_thrown:
  assumes "settled env [] tr (Thrown err :: unit completion)"
  shows "tr = butlast tr @ [last tr]" and "failures env [] (butlast tr) = []"
    and "failure env (butlast tr) (last tr) = Some err"
    and "failures env [] (tr @ [ConsoleError m]) = [err]"
proof -
  from assms have ne: "tr \<noteq> []" and f: "failures env [] (butlast tr) = []"
    and l: "failure env (butlast tr) (last tr) = Some err"
    by (simp_all add: settled_simps)
  from ne show split: "tr = butlast tr @ [last tr]"
    by simp
  from f show "failures env [] (butlast tr) = []" .
  from l show "failure env (butlast tr) (last tr) = Some err" .
  have "failures env [] ((butlast tr @ [last tr]) @ [ConsoleError m]) = [err]"
    using f l by (simp add: failures_append failure_simps)
  with split show "failures env [] (tr @ [ConsoleError m]) = [err]"
    by simp
qed

lemma run_generator_failures:
  "error_reported (fst (run_generator env)) \<longleftrightarrow>
     (\<exists>t. fst (run_generator env) = [ConsoleError (unknown_theme_message t)])
     \<or> failures env [] (fst (run_generator env)) \<noteq> []"
proof -
  obtain tr r where m: "main env [] = (tr, r)"
    by (cases "main env []")
  from main_settled [OF m] consider (asked) "r = Exit 0" "tr = []"
    | (unknown) t where "r = Exit 1" "tr = [ConsoleError (unknown_theme_message t)]"
    | (run) "\<forall>code. r \<noteq> Exit code" "\<not> error_reported tr" "settled env [] tr r"
    by blast
  then show ?thesis
  proof cases
    case asked
    with m show ?thesis
      by (simp add: run_generator_def error_reported_simps)
  next
    case unknown
    with m show ?thesis
      by (auto simp: run_generator_def error_reported_simps)
  next
    case run
    show ?thesis
    proof (cases r)
      case (Returned u)
      with run m have "fst (run_generator env) = tr" and "failures env [] tr = []"
        by (simp_all add: run_generator_def settled_simps)
      with run(2) show ?thesis
        by (auto simp: error_reported_simps)
    next
      case (Thrown err)
      with m have t: "fst (run_generator env) = tr @ [ConsoleError (''Error: '' @ message err)]"
        by (simp add: run_generator_def)
      from run(3) Thrown have "failures env [] (tr @ [ConsoleError (''Error: '' @ message err)]) = [err]"
        by (intro failures_thrown) simp
      with t show ?thesis
        by (simp add: error_reported_simps)
    next
      case (Exit code)
      with run show ?thesis
        by simp
    qed
  qed
qed

lemma run_generator_first_failure:
  assumes "failures env [] (fst (run_generator env)) \<noteq> []"
  shows "\<exists>tr1 e err. fst (run_generator env) = tr1 @ [e, ConsoleError (''Error: '' @ message err)]
           \<and> failures env [] tr1 = [] \<and> failure env tr1 e = Some err"
proof -
  obtain tr r where m: "main env [] = (tr, r)"
    by (cases "main env []")
  from main_settled [OF m] consider (asked) "r = Exit 0" "tr = []"
    | (unknown) t where "r = Exit 1" "tr = [ConsoleError (unknown_theme_message t)]"
    | (run) "\<forall>code. r \<noteq> Exit code" "\<not> error_reported tr" "settled env [] tr r"
    by blast
  then show ?thesis
  proof cases
    case asked
    with m assms show ?thesis
      by (simp add: run_generator_def)
  next
    case unknown
    with m assms show ?thesis
      by (simp add: run_generator_def failure_simps)
  next
    case run
    show ?thesis
    proof (cases r)
      case (Returned u)
      with run m assms show ?thesis
        by (simp add: run_generator_def settled_simps)
    next
      case (Thrown err)
      with m have t: "fst (run_generator env) = tr @ [ConsoleError (''Error: '' @ message err)]"
        by (simp add: run_generator_def)
      from run(3) Thrown have s: "settled env [] tr (Thrown err :: unit completion)"
        by simp
      from failures_thrown(1) [OF s]
      have "tr @ [ConsoleError (''Error: '' @ message err)]
              = butlast tr @ [last tr, ConsoleError (''Error: '' @ message err)]"
        by simp
      with t have shape: "fst (run_generator env)
              = butlast tr @ [last tr, ConsoleError (''Error: '' @ message err)]"
        by simp
      show ?thesis
      proof (intro exI conjI)
        show "fst (run_generator env)
              = butlast tr @ [last tr, ConsoleError (''Error: '' @ message err)]"
          by (rule shape)
        show "failures env [] (butlast tr) = []"
          by (rule failures_thrown(2) [OF s])
        show "failure env (butlast tr) (last tr) = Some err"
          by (rule failures_thrown(3) [OF s])
      qed
    next
      case (Exit code)
      with run show ?thesis
        by simp
    qed
  qed
qed

lemma run_generator_heedful: "sass_failures_reported env [] (fst (run_generator env))"
proof -
  obtain tr r where m: "main env [] = (tr, r)"
    by (cases "main env []")
  from main_settled [OF m] have h: "sass_failures_reported env [] tr"
    by auto
  show ?thesis
  proof (cases r)
    case (Thrown err)
    with m have t: "fst (run_generator env) = tr @ [ConsoleError (''Error: '' @ message err)]"
      by (simp add: run_generator_def)
    from h have "sass_failures_reported env [] (tr @ [ConsoleError (''Error: '' @ message err)])"
      by (rule sass_failures_reported_append) simp
    with t show ?thesis
      by simp
  next
    case (Returned u)
    with m h show ?thesis
      by (simp add: run_generator_def)
  next
    case (Exit code)
    with m h show ?thesis
      by (simp add: run_generator_def)
  qed
qed

text \<open>The build script: the failed commands along a run.\<close>

lemma build_failures_append:
  "build_failures env tr (xs @ ys) = build_failures env tr xs @ build_failures env (tr @ xs) ys"
  by (induction xs arbitrary: tr) simp_all

lemma build_failure_simps:
  "build_failure env tr (SpinnerStart m) = None"
  "build_failure env tr (SpinnerSucceed m) = None"
  "build_failure env tr (SpinnerFail m) = None"
  "build_failure env tr (ExistsSync p) = None"
  "build_failure env tr (ConsoleError m) = None"
  "build_failure env tr (ExecFileSync c args)
     = (if c = ''cross-env'' then execFileSync env tr c args else None)"
  by (simp_all add: build_failure_def)

lemma delete_failure_simps:
  "delete_failure env tr (SpinnerStart m) = None"
  "delete_failure env tr (SpinnerSucceed m) = None"
  "delete_failure env tr (SpinnerFail m) = None"
  "delete_failure env tr (ExistsSync p) = None"
  "delete_failure env tr (ConsoleError m) = None"
  "delete_failure env tr (ExecFileSync c args)
     = (if c \<noteq> ''cross-env'' then execFileSync env tr c args else None)"
  by (simp_all add: delete_failure_def)

lemma build_goes_on_Cons:
  "build_goes_on theme err (e1 # e2 # rest) \<longleftrightarrow>
     e1 = ConsoleError (''[CHI]: Error deleting '' @ cssFileName theme @ '': '' @ message err)
     \<and> e2 = ExecFileSync ''cross-env'' (viteArgs theme)"
proof (cases "\<exists>m. e1 = ConsoleError m")
  case False
  then show ?thesis
    by (cases e1) (simp_all add: build_goes_on_def)
next
  case True
  then obtain m where e1: "e1 = ConsoleError m"
    by blast
  show ?thesis
  proof (cases "\<exists>c args. e2 = ExecFileSync c args")
    case False
    then show ?thesis
      by (cases e2) (simp_all add: build_goes_on_def e1)
  next
    case True
    then obtain c args where e2: "e2 = ExecFileSync c args"
      by blast
    show ?thesis
      unfolding build_goes_on_def e1 e2 list.case effect.case by auto
  qed
qed

lemma build_goes_on_short:
  "\<not> build_goes_on theme err []"
  "\<not> build_goes_on theme err [e]"
  by (simp add: build_goes_on_def, cases e, simp_all add: build_goes_on_def)

lemma build_goes_on_append:
  assumes "build_goes_on theme err ext"
  shows "build_goes_on theme err (ext @ ys)"
proof (cases ext)
  case Nil
  with assms show ?thesis
    by (simp add: build_goes_on_short)
next
  case (Cons e1 ext1)
  show ?thesis
  proof (cases ext1)
    case Nil
    with Cons assms show ?thesis
      by (simp add: build_goes_on_short)
  next
    case c2: (Cons e2 rest)
    with Cons assms show ?thesis
      by (simp add: build_goes_on_Cons)
  qed
qed

lemma delete_failures_reported_append:
  "delete_failures_reported env tr xs \<Longrightarrow> delete_failures_reported env (tr @ xs) ys
   \<Longrightarrow> delete_failures_reported env tr (xs @ ys)"
proof (induction xs arbitrary: tr)
  case Nil
  then show ?case
    by simp
next
  case (Cons e xs)
  from Cons.prems have "delete_failures_reported env (tr @ [e]) xs"
    and "delete_failures_reported env ((tr @ [e]) @ xs) ys"
    by simp_all
  then have tl: "delete_failures_reported env (tr @ [e]) (xs @ ys)"
    by (rule Cons.IH)
  from Cons.prems(1)
  have "case delete_failure env tr e of
          Some err \<Rightarrow> list_ex (\<lambda>theme. build_goes_on theme err (xs @ ys)) allowedThemes
        | None \<Rightarrow> True"
    by (auto simp: list_ex_iff intro: build_goes_on_append split: option.splits)
  with tl show ?case
    by simp
qed

lemma deleteCommand_cases:
  obtains c args where "deleteCommand env p = (c, args)" and "c \<noteq> ''cross-env''"
  by (cases "isWindows env") (simp_all add: deleteCommand_def)

lemma deleteCssFile_failures:
  assumes "deleteCssFile env tr t = (tr', r)"
  shows "(t \<notin> set allowedThemes \<and> tr' = tr \<and> r = Some (invalid_theme t))
       \<or> (t \<in> set allowedThemes \<and> r = None
           \<and> (\<exists>ext. tr' = tr @ ext \<and> build_failures env tr ext = []
                \<and> delete_failures_reported env tr (ext @ [ExecFileSync ''cross-env'' (viteArgs t)])))"
proof (cases "t \<in> set allowedThemes")
  case False
  with assms show ?thesis
    by (simp add: deleteCssFile_def invalid_theme_def)
next
  case True
  let ?fp = "path_resolve env ''dist'' (cssFileName t)"
  let ?vite = "ExecFileSync ''cross-env'' (viteArgs t)"
  obtain c args where cmd: "deleteCommand env ?fp = (c, args)" and nc: "c \<noteq> ''cross-env''"
    by (rule deleteCommand_cases)
  have "r = None \<and> (\<exists>ext. tr' = tr @ ext \<and> build_failures env tr ext = []
                \<and> delete_failures_reported env tr (ext @ [?vite]))"
  proof (cases "existsSync env tr ?fp")
    case False
    with assms True have "tr' = tr @ [ExistsSync ?fp]" and "r = None"
      by (simp_all add: deleteCssFile_def Let_def)
    moreover have "build_failures env tr [ExistsSync ?fp] = []"
      and "delete_failures_reported env tr ([ExistsSync ?fp] @ [?vite])"
      by (simp_all add: build_failure_simps delete_failure_simps)
    ultimately show ?thesis
      by blast
  next
    case present: True
    show ?thesis
    proof (cases "execFileSync env (tr @ [ExistsSync ?fp]) c args")
      case None
      with assms True present cmd have "tr' = tr @ [ExistsSync ?fp, ExecFileSync c args]" and "r = None"
        by (simp_all add: deleteCssFile_def Let_def)
      moreover have "build_failures env tr [ExistsSync ?fp, ExecFileSync c args] = []"
        and "delete_failures_reported env tr ([ExistsSync ?fp, ExecFileSync c args] @ [?vite])"
        using nc None by (simp_all add: build_failure_simps delete_failure_simps)
      ultimately show ?thesis
        by blast
    next
      case (Some err)
      let ?report = "ConsoleError (''[CHI]: Error deleting '' @ cssFileName t @ '': '' @ message err)"
      from assms True present cmd Some
      have "tr' = tr @ [ExistsSync ?fp, ExecFileSync c args, ?report]" and "r = None"
        by (simp_all add: deleteCssFile_def Let_def)
      moreover have "build_failures env tr [ExistsSync ?fp, ExecFileSync c args, ?report] = []"
        using nc by (simp add: build_failure_simps)
      moreover have "build_goes_on t err [?report, ?vite]"
        by (simp only: build_goes_on_Cons simp_thms)
      then have "list_ex (\<lambda>theme. build_goes_on theme err [?report, ?vite]) allowedThemes"
        unfolding list_ex_iff using True by blast
      then have "delete_failures_reported env tr ([ExistsSync ?fp, ExecFileSync c args, ?report] @ [?vite])"
        using nc Some by (simp add: delete_failure_simps)
      ultimately show ?thesis
        by blast
    qed
  qed
  with True show ?thesis
    by blast
qed

lemma buildTheme_failures:
  assumes "buildTheme env tr t = (tr', r)"
  shows "\<exists>ext. tr' = tr @ ext \<and> delete_failures_reported env tr ext
     \<and> (case r of
          None \<Rightarrow> t \<in> set allowedThemes \<and> build_failures env tr ext = []
        | Some err \<Rightarrow>
            \<exists>pre. build_failures env tr pre = []
              \<and> ((t \<notin> set allowedThemes \<and> err = invalid_theme t
                   \<and> ext = pre @ [SpinnerFail (fail_message t err)])
                 \<or> (t \<in> set allowedThemes
                     \<and> ext = pre @ [ExecFileSync ''cross-env'' (viteArgs t),
                                     SpinnerFail (fail_message t err)]
                     \<and> execFileSync env (tr @ pre) ''cross-env'' (viteArgs t) = Some err)))"
proof -
  let ?start = "SpinnerStart (start_message t)"
  let ?vite = "ExecFileSync ''cross-env'' (viteArgs t)"
  let ?done = "SpinnerSucceed (''[CHI]: Build for '' @ t @ '' theme completed successfully'')"
  obtain tr1 r1 where d: "deleteCssFile env (tr @ [?start]) t = (tr1, r1)"
    by (cases "deleteCssFile env (tr @ [?start]) t")
  from deleteCssFile_failures [OF d]
  consider (invalid) "t \<notin> set allowedThemes" "tr1 = tr @ [?start]" "r1 = Some (invalid_theme t)"
    | (deleted) ext where "t \<in> set allowedThemes" "r1 = None" "tr1 = (tr @ [?start]) @ ext"
        "build_failures env (tr @ [?start]) ext = []"
        "delete_failures_reported env (tr @ [?start]) (ext @ [?vite])"
    by blast
  then show ?thesis
  proof cases
    case invalid
    let ?fail = "SpinnerFail (fail_message t (invalid_theme t))"
    from assms d invalid have r: "r = Some (invalid_theme t)" and t: "tr' = tr @ [?start, ?fail]"
      by (simp_all add: buildTheme_alt Let_def)
    have 1: "delete_failures_reported env tr [?start, ?fail]"
      by (simp add: delete_failure_simps)
    have 2: "build_failures env tr [?start] = []"
      by (simp add: build_failure_simps)
    have 3: "[?start, ?fail] = [?start] @ [?fail]"
      by simp
    from invalid(1) 2 3
    have "\<exists>pre. build_failures env tr pre = []
              \<and> ((t \<notin> set allowedThemes \<and> invalid_theme t = invalid_theme t
                   \<and> [?start, ?fail] = pre @ [?fail])
                 \<or> (t \<in> set allowedThemes
                     \<and> [?start, ?fail] = pre @ [?vite, ?fail]
                     \<and> execFileSync env (tr @ pre) ''cross-env'' (viteArgs t) = Some (invalid_theme t)))"
      by blast
    with t 1 show ?thesis
      unfolding r option.case by blast
  next
    case deleted
    have pre0: "build_failures env tr (?start # ext) = []"
      using deleted(4) by (simp add: build_failure_simps)
    have del0: "delete_failures_reported env tr (?start # ext @ [?vite])"
      using deleted(5) by (simp add: delete_failure_simps)
    show ?thesis
    proof (cases "execFileSync env tr1 ''cross-env'' (viteArgs t)")
      case (Some err)
      let ?fail = "SpinnerFail (fail_message t err)"
      from assms d deleted(2) Some have r: "r = Some err" and t0: "tr' = (tr1 @ [?vite]) @ [?fail]"
        by (simp_all add: buildTheme_alt Let_def)
      from t0 deleted(3) have t: "tr' = tr @ ((?start # ext) @ [?vite, ?fail])"
        by simp
      have "delete_failures_reported env tr ((?start # ext @ [?vite]) @ [?fail])"
        using del0 by (rule delete_failures_reported_append) (simp add: delete_failure_simps)
      then have 1: "delete_failures_reported env tr ((?start # ext) @ [?vite, ?fail])"
        by simp
      from Some deleted(3) have 2: "execFileSync env (tr @ (?start # ext)) ''cross-env'' (viteArgs t) = Some err"
        by simp
      from deleted(1) pre0 2
      have "\<exists>pre. build_failures env tr pre = []
              \<and> ((t \<notin> set allowedThemes \<and> err = invalid_theme t
                   \<and> (?start # ext) @ [?vite, ?fail] = pre @ [?fail])
                 \<or> (t \<in> set allowedThemes
                     \<and> (?start # ext) @ [?vite, ?fail] = pre @ [?vite, ?fail]
                     \<and> execFileSync env (tr @ pre) ''cross-env'' (viteArgs t) = Some err))"
        by blast
      with t 1 show ?thesis
        unfolding r option.case by blast
    next
      case None
      from assms d deleted(2) None have r: "r = None" and t0: "tr' = (tr1 @ [?vite]) @ [?done]"
        by (simp_all add: buildTheme_alt Let_def)
      from t0 deleted(3) have t: "tr' = tr @ ((?start # ext) @ [?vite, ?done])"
        by simp
      have "delete_failures_reported env tr ((?start # ext @ [?vite]) @ [?done])"
        using del0 by (rule delete_failures_reported_append) (simp add: delete_failure_simps)
      then have 1: "delete_failures_reported env tr ((?start # ext) @ [?vite, ?done])"
        by simp
      from None deleted(3) have "execFileSync env (tr @ (?start # ext)) ''cross-env'' (viteArgs t) = None"
        by simp
      with pre0 have 2: "build_failures env tr ((?start # ext) @ [?vite, ?done]) = []"
        by (simp add: build_failures_append build_failure_simps)
      from t 1 2 deleted(1) show ?thesis
        unfolding r option.case by blast
    qed
  qed
qed

lemma buildAllThemes_failures:
  "buildAllThemes env tr ts = (tr', r) \<Longrightarrow>
     \<exists>ext. tr' = tr @ ext \<and> delete_failures_reported env tr ext
       \<and> (case r of
            None \<Rightarrow> (\<forall>t \<in> set ts. t \<in> set allowedThemes) \<and> build_failures env tr ext = []
          | Some err \<Rightarrow>
              \<exists>t pre. t \<in> set ts \<and> build_failures env tr pre = []
                \<and> ((t \<notin> set allowedThemes \<and> err = invalid_theme t
                     \<and> ext = pre @ [SpinnerFail (fail_message t err)])
                   \<or> (t \<in> set allowedThemes
                       \<and> ext = pre @ [ExecFileSync ''cross-env'' (viteArgs t),
                                       SpinnerFail (fail_message t err)]
                       \<and> execFileSync env (tr @ pre) ''cross-env'' (viteArgs t) = Some err)))"
proof (induction ts arbitrary: tr tr')
  case Nil
  then show ?case
    by auto
next
  case (Cons t ts)
  obtain tr1 r1 where b: "buildTheme env tr t = (tr1, r1)"
    by (cases "buildTheme env tr t")
  from buildTheme_failures [OF b] obtain ext1
    where e1: "tr1 = tr @ ext1" and d1: "delete_failures_reported env tr ext1"
      and c1: "case r1 of
          None \<Rightarrow> t \<in> set allowedThemes \<and> build_failures env tr ext1 = []
        | Some err \<Rightarrow>
            \<exists>pre. build_failures env tr pre = []
              \<and> ((t \<notin> set allowedThemes \<and> err = invalid_theme t
                   \<and> ext1 = pre @ [SpinnerFail (fail_message t err)])
                 \<or> (t \<in> set allowedThemes
                     \<and> ext1 = pre @ [ExecFileSync ''cross-env'' (viteArgs t),
                                     SpinnerFail (fail_message t err)]
                     \<and> execFileSync env (tr @ pre) ''cross-env'' (viteArgs t) = Some err))"
    by blast
  show ?case
  proof (cases r1)
    case (Some err)
    with Cons.prems b have r: "r = Some err" and t: "tr' = tr1"
      by simp_all
    from c1 Some obtain pre where "build_failures env tr pre = []"
      and "(t \<notin> set allowedThemes \<and> err = invalid_theme t
                   \<and> ext1 = pre @ [SpinnerFail (fail_message t err)])
                 \<or> (t \<in> set allowedThemes
                     \<and> ext1 = pre @ [ExecFileSync ''cross-env'' (viteArgs t),
                                     SpinnerFail (fail_message t err)]
                     \<and> execFileSync env (tr @ pre) ''cross-env'' (viteArgs t) = Some err)"
      by auto
    moreover have "t \<in> set (t # ts)"
      by simp
    ultimately
    have "\<exists>u pre. u \<in> set (t # ts) \<and> build_failures env tr pre = []
                \<and> ((u \<notin> set allowedThemes \<and> err = invalid_theme u
                     \<and> ext1 = pre @ [SpinnerFail (fail_message u err)])
                   \<or> (u \<in> set allowedThemes
                       \<and> ext1 = pre @ [ExecFileSync ''cross-env'' (viteArgs u),
                                       SpinnerFail (fail_message u err)]
                       \<and> execFileSync env (tr @ pre) ''cross-env'' (viteArgs u) = Some err))"
      by blast
    with e1 d1 show ?thesis
      unfolding r t option.case by blast
  next
    case None
    with Cons.prems b have rest: "buildAllThemes env tr1 ts = (tr', r)"
      by simp
    from c1 None have a1: "t \<in> set allowedThemes" and f1: "build_failures env tr ext1 = []"
      by simp_all
    from Cons.IH [OF rest] obtain ext2
      where e2: "tr' = tr1 @ ext2" and d2: "delete_failures_reported env tr1 ext2"
        and c2: "case r of
            None \<Rightarrow> (\<forall>t \<in> set ts. t \<in> set allowedThemes) \<and> build_failures env tr1 ext2 = []
          | Some err \<Rightarrow>
              \<exists>u pre. u \<in> set ts \<and> build_failures env tr1 pre = []
                \<and> ((u \<notin> set allowedThemes \<and> err = invalid_theme u
                     \<and> ext2 = pre @ [SpinnerFail (fail_message u err)])
                   \<or> (u \<in> set allowedThemes
                       \<and> ext2 = pre @ [ExecFileSync ''cross-env'' (viteArgs u),
                                       SpinnerFail (fail_message u err)]
                       \<and> execFileSync env (tr1 @ pre) ''cross-env'' (viteArgs u) = Some err))"
      by blast
    have e: "tr' = tr @ (ext1 @ ext2)"
      using e1 e2 by simp
    from d1 d2 have d: "delete_failures_reported env tr (ext1 @ ext2)"
      unfolding e1 by (rule delete_failures_reported_append)
    show ?thesis
    proof (cases r)
      case n: None
      with c2 have "\<forall>u \<in> set ts. u \<in> set allowedThemes" and "build_failures env tr1 ext2 = []"
        by simp_all
      with a1 f1 have "\<forall>u \<in> set (t # ts). u \<in> set allowedThemes"
        and "build_failures env tr (ext1 @ ext2) = []"
        by (simp_all add: build_failures_append e1)
      with e d show ?thesis
        unfolding n option.case by blast
    next
      case s: (Some err)
      with c2 obtain u pre where u: "u \<in> set ts" and f2: "build_failures env tr1 pre = []"
        and alt: "(u \<notin> set allowedThemes \<and> err = invalid_theme u
                     \<and> ext2 = pre @ [SpinnerFail (fail_message u err)])
                   \<or> (u \<in> set allowedThemes
                       \<and> ext2 = pre @ [ExecFileSync ''cross-env'' (viteArgs u),
                                       SpinnerFail (fail_message u err)]
                       \<and> execFileSync env (tr1 @ pre) ''cross-env'' (viteArgs u) = Some err)"
        by auto
      from u have 1: "u \<in> set (t # ts)"
        by simp
      from f1 f2 have 2: "build_failures env tr (ext1 @ pre) = []"
        by (simp add: build_failures_append e1)
      from alt
      have 3: "(u \<notin> set allowedThemes \<and> err = invalid_theme u
                     \<and> ext1 @ ext2 = (ext1 @ pre) @ [SpinnerFail (fail_message u err)])
                   \<or> (u \<in> set allowedThemes
                       \<and> ext1 @ ext2 = (ext1 @ pre) @ [ExecFileSync ''cross-env'' (viteArgs u),
                                       SpinnerFail (fail_message u err)]
                       \<and> execFileSync env (tr @ (ext1 @ pre)) ''cross-env'' (viteArgs u) = Some err)"
        by (auto simp: e1)
      from 1 2 3
      have "\<exists>u pre. u \<in> set (t # ts) \<and> build_failures env tr pre = []
                \<and> ((u \<notin> set allowedThemes \<and> err = invalid_theme u
                     \<and> ext1 @ ext2 = pre @ [SpinnerFail (fail_message u err)])
                   \<or> (u \<in> set allowedThemes
                       \<and> ext1 @ ext2 = pre @ [ExecFileSync ''cross-env'' (viteArgs u),
                                       SpinnerFail (fail_message u err)]
                       \<and> execFileSync env (tr @ pre) ''cross-env'' (viteArgs u) = Some err))"
        by blast
      with e d show ?thesis
        unfolding s option.case by blast
    qed
  qed
qed

lemma build_main_result:
  obtains (succeeded) "snd (build_main env) = 0"
      "\<forall>t \<in> set (themes env). t \<in> set allowedThemes"
      "build_failures env [] (fst (build_main env)) = []"
      "delete_failures_reported env [] (fst (build_main env))"
    | (invalid) t pre where "snd (build_main env) = 1" "t \<in> set (themes env)"
      "t \<notin> set allowedThemes"
      "fst (build_main env) = pre @ [SpinnerFail (fail_message t (invalid_theme t))]"
      "build_failures env [] (fst (build_main env)) = []"
      "delete_failures_reported env [] (fst (build_main env))"
    | (failed) t pre err where "snd (build_main env) = 1" "t \<in> set (themes env)"
      "t \<in> set allowedThemes"
      "fst (build_main env) = pre @ [ExecFileSync ''cross-env'' (viteArgs t),
                                      SpinnerFail (fail_message t err)]"
      "build_failures env [] pre = []"
      "execFileSync env pre ''cross-env'' (viteArgs t) = Some err"
      "build_failures env [] (fst (build_main env)) = [err]"
      "delete_failures_reported env [] (fst (build_main env))"
proof -
  obtain tr r where b: "buildAllThemes env [] (themes env) = (tr, r)"
    by (cases "buildAllThemes env [] (themes env)")
  from buildAllThemes_failures [OF b]
  have d: "delete_failures_reported env [] tr"
    and c: "case r of
            None \<Rightarrow> (\<forall>t \<in> set (themes env). t \<in> set allowedThemes) \<and> build_failures env [] tr = []
          | Some err \<Rightarrow>
              \<exists>t pre. t \<in> set (themes env) \<and> build_failures env [] pre = []
                \<and> ((t \<notin> set allowedThemes \<and> err = invalid_theme t
                     \<and> tr = pre @ [SpinnerFail (fail_message t err)])
                   \<or> (t \<in> set allowedThemes
                       \<and> tr = pre @ [ExecFileSync ''cross-env'' (viteArgs t),
                                       SpinnerFail (fail_message t err)]
                       \<and> execFileSync env ([] @ pre) ''cross-env'' (viteArgs t) = Some err))"
    by auto
  show ?thesis
  proof (cases r)
    case None
    with b have "build_main env = (tr, 0)"
      by (simp add: build_main_def)
    with c d None show ?thesis
      by (intro succeeded) simp_all
  next
    case (Some err)
    with b have m: "build_main env = (tr, 1)"
      by (simp add: build_main_def)
    from c Some obtain t pre where t: "t \<in> set (themes env)" and f: "build_failures env [] pre = []"
      and alt: "(t \<notin> set allowedThemes \<and> err = invalid_theme t
                     \<and> tr = pre @ [SpinnerFail (fail_message t err)])
                   \<or> (t \<in> set allowedThemes
                       \<and> tr = pre @ [ExecFileSync ''cross-env'' (viteArgs t),
                                       SpinnerFail (fail_message t err)]
                       \<and> execFileSync env pre ''cross-env'' (viteArgs t) = Some err)"
      by auto
    show ?thesis
    proof (cases "t \<in> set allowedThemes")
      case False
      with alt have shape: "tr = pre @ [SpinnerFail (fail_message t (invalid_theme t))]"
        by auto
      with f have "build_failures env [] tr = []"
        by (simp add: build_failures_append build_failure_simps)
      with m t False shape d show ?thesis
        by (intro invalid [of t pre]) simp_all
    next
      case True
      with alt have shape: "tr = pre @ [ExecFileSync ''cross-env'' (viteArgs t),
                                       SpinnerFail (fail_message t err)]"
        and x: "execFileSync env pre ''cross-env'' (viteArgs t) = Some err"
        by auto
      with f have "build_failures env [] tr = [err]"
        by (simp add: build_failures_append build_failure_simps)
      with m t True shape f x d show ?thesis
        by (intro failed [of t pre err]) simp_all
    qed
  qed
qed

lemma build_main_failures:
  "snd (build_main env) = 0 \<longleftrightarrow>
     (\<forall>t \<in> set (themes env). t \<in> set allowedThemes)
     \<and> build_failures env [] (fst (build_main env)) = []"
  by (cases env rule: build_main_result) auto

lemma build_main_first_failure:
  assumes "build_failures env [] (fst (build_main env)) \<noteq> []"
  shows "\<exists>tr1 t err. t \<in> set (themes env)
           \<and> fst (build_main env) = tr1 @ [ExecFileSync ''cross-env'' (viteArgs t),
                                            SpinnerFail (fail_message t err)]
           \<and> build_failures env [] tr1 = []
           \<and> execFileSync env tr1 ''cross-env'' (viteArgs t) = Some err"
  using assms by (cases env rule: build_main_result) blast+

lemma build_main_deletes: "delete_failures_reported env [] (fst (build_main env))"
  by (cases env rule: build_main_result) simp_all

lemma build_main_invalid:
  assumes "\<exists>t \<in> set (themes env). t \<notin> set allowedThemes"
    and "build_failures env [] (fst (build_main env)) = []"
  shows "\<exists>t \<in> set (themes env). t \<notin> set allowedThemes
           \<and> last (fst (build_main env)) = SpinnerFail (fail_message t (invalid_theme t))"
  using assms by (cases env rule: build_main_result) auto




text \<open>The example runs.\<close>

lemma sass_fails_env_fields:
  "argv sass_fails_env = [''--theme=lumen'']"
  "import_meta_dirname sass_fails_env = ''/chi/scripts''"
  "Date_toISOString sass_fails_env = (\<lambda>tr. example_stamp)"
  "fs_existsSync sass_fails_env = (\<lambda>tr p. True)"
  "fs_readFileSync sass_fails_env = (\<lambda>tr p. Inr (if p = ''/chi/src/chi/_global-variables.scss''
                                        then global_file else theme_file))"
  "fs_writeFileSync sass_fails_env = (\<lambda>tr p d. None)"
  "fs_mkdirSync sass_fails_env = (\<lambda>tr p. None)"
  "fs_readdirSync sass_fails_env = (\<lambda>tr p. Inr [])"
  "fs_copyFileSync sass_fails_env = (\<lambda>tr p q. None)"
  "sass_compile sass_fails_env = (\<lambda>tr p. Inl (Error ''Undefined variable.''))"
  "JSON_parse sass_fails_env = (\<lambda>content. None)"
  by (simp_all add: sass_fails_env_def)

lemma sass_fails_env_paths:
  "GLOBAL_VARS_FILE sass_fails_env = ''/chi/src/chi/_global-variables.scss''"
  "THEMES_DIR sass_fails_env = ''/chi/src/chi/themes''"
  "DIST_TOKENS_DIR sass_fails_env = ''/chi/dist/tokens''"
  "varsFile sass_fails_env ''lumen'' = ''/chi/src/chi/themes/lumen/_variables.scss''"
  "scssPath_of sass_fails_env ''lumen'' = ''/chi/src/chi/themes/lumen/css-variables.scss''"
  "jsonPath_of sass_fails_env ''lumen'' = ''/chi/dist/tokens/lumen.json''"
  by code_simp+

lemma sass_fails_env_args:
  "parseArgs sass_fails_env [] =
     ([], Returned \<lparr>cli_themes = [''lumen''], cli_layers = [Foundation, Semantic],
                     jsonOnly = False, dryRun = False\<rparr>)"
  by code_simp

lemma sass_fails_env_run:
  "run_generator sass_fails_env =
     ([ReadFileSync ''/chi/src/chi/_global-variables.scss'',
       ExistsSync ''/chi/src/chi/themes/lumen/_variables.scss'',
       ReadFileSync ''/chi/src/chi/themes/lumen/_variables.scss'',
       NewDate,
       NewDate,
       WriteFileSync ''/chi/src/chi/themes/lumen/css-variables.scss'' (Scss (scss example_output)),
       SassCompile ''/chi/src/chi/themes/lumen/css-variables.scss'',
       ConsoleWarn (resolve_message ''lumen'' (Error ''Undefined variable.'')),
       MkdirSync ''/chi/dist/tokens'',
       WriteFileSync ''/chi/dist/tokens/lumen.json''
         (MetadataJson (generateTokenMetadata (parseScssVariables theme_file)
            (parseScssVariables global_file) ''lumen'' example_output example_stamp))],
      0)"
proof -
  have six: "length THEMES = 6"
    by (simp add: THEMES_def)
  have "main sass_fails_env [] =
     ([ReadFileSync ''/chi/src/chi/_global-variables.scss'',
       ExistsSync ''/chi/src/chi/themes/lumen/_variables.scss'',
       ReadFileSync ''/chi/src/chi/themes/lumen/_variables.scss'',
       NewDate,
       NewDate,
       WriteFileSync ''/chi/src/chi/themes/lumen/css-variables.scss'' (Scss (scss example_output)),
       SassCompile ''/chi/src/chi/themes/lumen/css-variables.scss'',
       ConsoleWarn (resolve_message ''lumen'' (Error ''Undefined variable.'')),
       MkdirSync ''/chi/dist/tokens'',
       WriteFileSync ''/chi/dist/tokens/lumen.json''
         (MetadataJson (generateTokenMetadata (parseScssVariables theme_file)
            (parseScssVariables global_file) ''lumen'' example_output example_stamp))],
      Returned ())"
    by (simp add: main_unfold bind_io_def sass_fails_env_args sass_fails_env_paths
          sass_fails_env_fields read_file_def exists_file_def write_file_def make_dir_def
          new_date_def return_io_def process_theme_def resolveTokenValues_def Let_def six
          path_join_def example_output_def)
  then show ?thesis
    by (simp add: run_generator_def)
qed

lemma build_env_fields:
  "execFileSync rm_fails_env = (\<lambda>tr c args. if c = ''rm'' then Some (Error ''EPERM'') else None)"
  "execFileSync vite_fails_env
     = (\<lambda>tr c args. if c = ''cross-env'' then Some (Error ''Command failed'') else None)"
  "execFileSync invalid_theme_env = (\<lambda>tr c args. None)"
  "themes rm_fails_env = [''lumen'', ''portal'']"
  "themes vite_fails_env = [''lumen'', ''portal'']"
  "themes invalid_theme_env = [''lumen'', ''acme'']"
  by (simp add: rm_fails_env_def, simp add: vite_fails_env_def, simp add: invalid_theme_env_def,
      code_simp, code_simp, code_simp)

lemma rm_fails_env_run:
  "build_main rm_fails_env =
     ([SpinnerStart ''[CHI]: Building lumen theme (no file mutations)'',
       ExistsSync ''/chi/dist/chi.css'',
       ExecFileSync ''rm'' [''-f'', ''/chi/dist/chi.css''],
       ConsoleError ''[CHI]: Error deleting chi.css: EPERM'',
       ExecFileSync ''cross-env'' [''THEME=lumen'', ''vite'', ''build'', ''--c'', ''vite-css.config.ts''],
       SpinnerSucceed ''[CHI]: Build for lumen theme completed successfully'',
       SpinnerStart ''[CHI]: Building portal theme (no file mutations)'',
       ExistsSync ''/chi/dist/chi-portal.css'',
       ExecFileSync ''rm'' [''-f'', ''/chi/dist/chi-portal.css''],
       ConsoleError ''[CHI]: Error deleting chi-portal.css: EPERM'',
       ExecFileSync ''cross-env'' [''THEME=portal'', ''vite'', ''build'', ''--c'', ''vite-css.config.ts''],
       SpinnerSucceed ''[CHI]: Build for portal theme completed successfully''],
      0)"
  by code_simp

lemma vite_fails_env_run:
  "build_main vite_fails_env =
     ([SpinnerStart ''[CHI]: Building lumen theme (no file mutations)'',
       ExistsSync ''/chi/dist/chi.css'',
       ExecFileSync ''rm'' [''-f'', ''/chi/dist/chi.css''],
       ExecFileSync ''cross-env'' [''THEME=lumen'', ''vite'', ''build'', ''--c'', ''vite-css.config.ts''],
       SpinnerFail ''[CHI]: Error during build for lumen theme: Command failed''],
      1)"
  by code_simp

lemma invalid_theme_env_run:
  "build_main invalid_theme_env =
     ([SpinnerStart ''[CHI]: Building lumen theme (no file mutations)'',
       ExistsSync ''/chi/dist/chi.css'',
       ExecFileSync ''cross-env'' [''THEME=lumen'', ''vite'', ''build'', ''--c'', ''vite-css.config.ts''],
       SpinnerSucceed ''[CHI]: Build for lumen theme completed successfully'',
       SpinnerStart ''[CHI]: Building acme theme (no file mutations)'',
       SpinnerFail ''[CHI]: Error during build for acme theme: [CHI]: Invalid theme: acme''],
      1)"
  by code_simp

lemma never_throws_sass_fails_env: "never_throws sass_fails_env"
  by (simp add: never_throws_def sass_fails_env_fields)

lemma unknown_theme_env_run:
  "run_generator unknown_theme_env =
     ([ConsoleError ''Unknown theme: acme. Available: lumen, connect, brightspeed, centurylink, colt, portal''], 1)"
proof -
  have "parseArgs unknown_theme_env [] =
     ([ConsoleError ''Unknown theme: acme. Available: lumen, connect, brightspeed, centurylink, colt, portal''],
      Exit 1)"
    by code_simp
  then show ?thesis
    by (simp add: run_generator_def main_unfold bind_io_def [of "parseArgs unknown_theme_env"])
qed

lemma global_missing_env_run:
  "run_generator global_missing_env =
     ([ReadFileSync ''/chi/src/chi/_global-variables.scss'',
       ConsoleError ''Error: ENOENT: no such file or directory''],
      1)"
  by code_simp


text \<open>When neither the file system nor \<open>JSON.parse\<close> throws, no action fails; when the
  file system does not throw, a failed action is the reading of a metadata file of which
  \<open>JSON.parse\<close> rejects the content.\<close>

lemma failure_never_throws:
  assumes nt: "never_throws env" and f: "failure env tr e = Some err"
  shows "\<exists>p content. e = ReadFileSync p \<and> p \<in> set (map (jsonPath_of env) THEMES)
           \<and> fs_readFileSync env tr p = Inr content \<and> JSON_parse env content = Some err"
proof -
  from nt have r: "\<And>tr p. \<exists>content. fs_readFileSync env tr p = Inr content"
    and w: "\<And>tr p d. fs_writeFileSync env tr p d = None"
    and m: "\<And>tr p. fs_mkdirSync env tr p = None"
    and d: "\<And>tr p. \<exists>files. fs_readdirSync env tr p = Inr files"
    and c: "\<And>tr p q. fs_copyFileSync env tr p q = None"
    unfolding never_throws_def by blast+
  show ?thesis
  proof (cases e)
    case (ReadFileSync p)
    from r obtain content where rd: "fs_readFileSync env tr p = Inr content"
      by blast
    with f ReadFileSync have "p \<in> set (map (jsonPath_of env) THEMES)"
      and "JSON_parse env content = Some err"
      by (simp_all add: failure_def split: if_splits)
    with rd ReadFileSync show ?thesis
      by blast
  next
    case (ReaddirSync p)
    from d obtain files where "fs_readdirSync env tr p = Inr files"
      by blast
    with f ReaddirSync show ?thesis
      by (simp add: failure_def)
  qed (use f w m c in \<open>simp_all add: failure_def\<close>)
qed

lemma failures_never_throws:
  assumes "never_throws env" and "\<forall>content. JSON_parse env content = None"
  shows "failures env tr ext = []"
proof (induction ext arbitrary: tr)
  case Nil
  show ?case
    by simp
next
  case (Cons e ext)
  have "failure env tr e = None"
  proof (cases "failure env tr e")
    case (Some err)
    from failure_never_throws [OF assms(1) Some] assms(2) show ?thesis
      by auto
  qed simp
  with Cons show ?case
    by simp
qed

lemma run_generator_unknown_theme:
  assumes "never_throws env" and "\<forall>content. JSON_parse env content = None"
    and "error_reported (fst (run_generator env))"
  shows "\<exists>t. fst (run_generator env) = [ConsoleError (unknown_theme_message t)]"
  using assms(3) failures_never_throws [OF assms(1,2)] unfolding run_generator_failures
  by simp

text \<open>
  Claim C4, as amended. Only some failures end the run; those that do are reported and
  give exit code 1, and the others are reported and the run goes on.

  The build script. The exit code is 1 exactly when the spinner has reported a failed
  build of a theme, and that report is then the last action of the run. The exit code is
  0 exactly when every theme is an allowed theme and no build command has failed. When
  a build command has failed, the run has ended there: its last two actions are the
  first build command that failed and the report of the spinner with the message of its
  error. When no build command has failed and some theme is not an allowed theme, the
  last action is the report of the spinner for such a theme. A failure of the command
  that deletes the old CSS file does not end the run: it is followed by its report on
  \<open>console.error\<close> and by the build command of the theme, and when every theme is allowed
  and its build command never fails, the exit code is 0.

  The generator. The exit code is 1 exactly when \<open>console.error\<close> has reported an
  error, and that report is then the last action of the run. An error is reported
  exactly when the run consists of the report of an unknown theme of the command line,
  or a call of the file system has thrown, or \<open>JSON.parse\<close> has thrown on the metadata
  file of a theme read back; in the last two cases the run has ended there: its last two
  actions are the first action that failed and the report with the message of its error.
  So when neither the file system nor \<open>JSON.parse\<close> throws, the only error reported is
  the unknown theme. A failed call of the Sass compiler does not end the run and does
  not change the exit code: it is followed by the warning with the message of the error,
  by the creation of the directory of the metadata files and, unless that throws, by the
  writing of the metadata of the theme.
\<close>

theorem failures_that_end_the_run:
  "snd (build_main benv) = (if spinner_failed (fst (build_main benv)) then 1 else 0)
   \<and> (spinner_failed (fst (build_main benv))
        \<longrightarrow> (\<exists>m. last (fst (build_main benv)) = SpinnerFail m))
   \<and> (snd (build_main benv) = 0 \<longleftrightarrow>
        (\<forall>t \<in> set (themes benv). t \<in> set allowedThemes)
        \<and> build_failures benv [] (fst (build_main benv)) = [])
   \<and> (build_failures benv [] (fst (build_main benv)) \<noteq> []
        \<longrightarrow> (\<exists>tr1 t err. t \<in> set (themes benv)
               \<and> fst (build_main benv)
                   = tr1 @ [ExecFileSync ''cross-env'' (viteArgs t), SpinnerFail (fail_message t err)]
               \<and> build_failures benv [] tr1 = []
               \<and> execFileSync benv tr1 ''cross-env'' (viteArgs t) = Some err))
   \<and> ((\<exists>t \<in> set (themes benv). t \<notin> set allowedThemes)
        \<and> build_failures benv [] (fst (build_main benv)) = []
        \<longrightarrow> (\<exists>t \<in> set (themes benv). t \<notin> set allowedThemes
               \<and> last (fst (build_main benv)) = SpinnerFail (fail_message t (invalid_theme t))))
   \<and> delete_failures_reported benv [] (fst (build_main benv))
   \<and> ((\<forall>t \<in> set (themes benv). t \<in> set allowedThemes
           \<and> (\<forall>tr. execFileSync benv tr ''cross-env'' (viteArgs t) = None))
        \<longrightarrow> snd (build_main benv) = 0)
   \<and> snd (run_generator env) = (if error_reported (fst (run_generator env)) then 1 else 0)
   \<and> (error_reported (fst (run_generator env))
        \<longrightarrow> (\<exists>m. last (fst (run_generator env)) = ConsoleError m))
   \<and> (error_reported (fst (run_generator env)) \<longleftrightarrow>
        (\<exists>t. fst (run_generator env) = [ConsoleError (unknown_theme_message t)])
        \<or> failures env [] (fst (run_generator env)) \<noteq> [])
   \<and> (failures env [] (fst (run_generator env)) \<noteq> []
        \<longrightarrow> (\<exists>tr1 e err. fst (run_generator env)
                             = tr1 @ [e, ConsoleError (''Error: '' @ message err)]
               \<and> failures env [] tr1 = [] \<and> failure env tr1 e = Some err))
   \<and> sass_failures_reported env [] (fst (run_generator env))
   \<and> (never_throws env \<and> (\<forall>content. JSON_parse env content = None)
        \<and> error_reported (fst (run_generator env))
        \<longrightarrow> (\<exists>t. fst (run_generator env) = [ConsoleError (unknown_theme_message t)]))"
  apply (intro conjI)
  subgoal by (rule build_main_code)
  subgoal using build_main_last [of benv] by blast
  subgoal by (rule build_main_failures)
  subgoal using build_main_first_failure [of benv] by blast
  subgoal using build_main_invalid [of benv] by blast
  subgoal by (rule build_main_deletes)
  subgoal using build_main_succeeds [of benv] by blast
  subgoal by (rule run_generator_code)
  subgoal using run_generator_last [of env] by blast
  subgoal by (rule run_generator_failures)
  subgoal using run_generator_first_failure [of env] by blast
  subgoal by (rule run_generator_heedful)
  subgoal using run_generator_unknown_theme [of env] by blast
  done

theorem failures_that_end_the_run_witness:
  "snd (build_main rm_fails_env) = 0
   \<and> \<not> spinner_failed (fst (build_main rm_fails_env))
   \<and> build_failures rm_fails_env [] (fst (build_main rm_fails_env)) = []
   \<and> delete_failures_reported rm_fails_env [] (fst (build_main rm_fails_env))
   \<and> take 5 (fst (build_main rm_fails_env)) =
       [SpinnerStart ''[CHI]: Building lumen theme (no file mutations)'',
        ExistsSync ''/chi/dist/chi.css'',
        ExecFileSync ''rm'' [''-f'', ''/chi/dist/chi.css''],
        ConsoleError ''[CHI]: Error deleting chi.css: EPERM'',
        ExecFileSync ''cross-env'' [''THEME=lumen'', ''vite'', ''build'', ''--c'', ''vite-css.config.ts'']]
   \<and> snd (build_main vite_fails_env) = 1
   \<and> spinner_failed (fst (build_main vite_fails_env))
   \<and> (\<exists>m. last (fst (build_main vite_fails_env)) = SpinnerFail m)
   \<and> (\<exists>tr1 t err. t \<in> set (themes vite_fails_env)
         \<and> fst (build_main vite_fails_env)
             = tr1 @ [ExecFileSync ''cross-env'' (viteArgs t), SpinnerFail (fail_message t err)]
         \<and> build_failures vite_fails_env [] tr1 = []
         \<and> execFileSync vite_fails_env tr1 ''cross-env'' (viteArgs t) = Some err)
   \<and> snd (build_main invalid_theme_env) = 1
   \<and> last (fst (build_main invalid_theme_env))
       = SpinnerFail (fail_message ''acme'' (invalid_theme ''acme''))
   \<and> snd (run_generator sass_fails_env) = 0
   \<and> \<not> error_reported (fst (run_generator sass_fails_env))
   \<and> failures sass_fails_env [] (fst (run_generator sass_fails_env)) = []
   \<and> sass_failures_reported sass_fails_env [] (fst (run_generator sass_fails_env))
   \<and> ConsoleWarn (resolve_message ''lumen'' (Error ''Undefined variable.''))
       \<in> set (fst (run_generator sass_fails_env))
   \<and> snd (run_generator unknown_theme_env) = 1
   \<and> error_reported (fst (run_generator unknown_theme_env))
   \<and> (\<exists>m. last (fst (run_generator unknown_theme_env)) = ConsoleError m)
   \<and> (\<exists>t. fst (run_generator unknown_theme_env) = [ConsoleError (unknown_theme_message t)])
   \<and> snd (run_generator global_missing_env) = 1
   \<and> (\<exists>tr1 e err. fst (run_generator global_missing_env)
                      = tr1 @ [e, ConsoleError (''Error: '' @ message err)]
         \<and> failures global_missing_env [] tr1 = []
         \<and> failure global_missing_env tr1 e = Some err)"
proof -
  note rm = failures_that_end_the_run [where benv = rm_fails_env and env = sass_fails_env]
  note vite = failures_that_end_the_run [where benv = vite_fails_env and env = unknown_theme_env]
  note inv = failures_that_end_the_run [where benv = invalid_theme_env and env = global_missing_env]
  note rm_code = rm [THEN conjunct1]
  note rm_iff = rm [THEN conjunct2, THEN conjunct2, THEN conjunct1]
  note rm_del = rm [THEN conjunct2, THEN conjunct2, THEN conjunct2, THEN conjunct2,
    THEN conjunct2, THEN conjunct1]
  note rm_ok = rm [THEN conjunct2, THEN conjunct2, THEN conjunct2, THEN conjunct2,
    THEN conjunct2, THEN conjunct2, THEN conjunct1]
  note rm_gen = rm [THEN conjunct2, THEN conjunct2, THEN conjunct2, THEN conjunct2,
    THEN conjunct2, THEN conjunct2, THEN conjunct2]
  note sass_code = rm_gen [THEN conjunct1]
  note sass_iff = rm_gen [THEN conjunct2, THEN conjunct2, THEN conjunct1]
  note sass_heed = rm_gen [THEN conjunct2, THEN conjunct2, THEN conjunct2, THEN conjunct2,
    THEN conjunct1]
  note vite_code = vite [THEN conjunct1]
  note vite_last = vite [THEN conjunct2, THEN conjunct1]
  note vite_iff = vite [THEN conjunct2, THEN conjunct2, THEN conjunct1]
  note vite_first = vite [THEN conjunct2, THEN conjunct2, THEN conjunct2, THEN conjunct1]
  note vite_gen = vite [THEN conjunct2, THEN conjunct2, THEN conjunct2, THEN conjunct2,
    THEN conjunct2, THEN conjunct2, THEN conjunct2]
  note unknown_code = vite_gen [THEN conjunct1]
  note unknown_last = vite_gen [THEN conjunct2, THEN conjunct1]
  note unknown_only = vite_gen [THEN conjunct2, THEN conjunct2, THEN conjunct2, THEN conjunct2,
    THEN conjunct2]
  note inv_invalid = inv [THEN conjunct2, THEN conjunct2, THEN conjunct2, THEN conjunct2,
    THEN conjunct1]
  note inv_gen = inv [THEN conjunct2, THEN conjunct2, THEN conjunct2, THEN conjunct2,
    THEN conjunct2, THEN conjunct2, THEN conjunct2]
  note missing_code = inv_gen [THEN conjunct1]
  note missing_iff = inv_gen [THEN conjunct2, THEN conjunct2, THEN conjunct1]
  note missing_first = inv_gen [THEN conjunct2, THEN conjunct2, THEN conjunct2, THEN conjunct1]

  have "\<forall>t \<in> set (themes rm_fails_env). t \<in> set allowedThemes
           \<and> (\<forall>tr. execFileSync rm_fails_env tr ''cross-env'' (viteArgs t) = None)"
    by (simp add: build_env_fields allowedThemes_def)
  with rm_ok have b0: "snd (build_main rm_fails_env) = 0"
    by (rule mp)
  with rm_code have b1: "\<not> spinner_failed (fst (build_main rm_fails_env))"
    by (metis zero_neq_one)
  from rm_iff b0 have b2: "build_failures rm_fails_env [] (fst (build_main rm_fails_env)) = []"
    by simp
  have b3: "take 5 (fst (build_main rm_fails_env)) =
       [SpinnerStart ''[CHI]: Building lumen theme (no file mutations)'',
        ExistsSync ''/chi/dist/chi.css'',
        ExecFileSync ''rm'' [''-f'', ''/chi/dist/chi.css''],
        ConsoleError ''[CHI]: Error deleting chi.css: EPERM'',
        ExecFileSync ''cross-env'' [''THEME=lumen'', ''vite'', ''build'', ''--c'', ''vite-css.config.ts'']]"
    by (simp add: rm_fails_env_run)

  have v0: "snd (build_main vite_fails_env) = 1"
    by (simp add: vite_fails_env_run)
  with vite_code have v1: "spinner_failed (fst (build_main vite_fails_env))"
    by (metis zero_neq_one)
  with vite_last have v2: "\<exists>m. last (fst (build_main vite_fails_env)) = SpinnerFail m"
    by (rule mp)
  have "\<forall>t \<in> set (themes vite_fails_env). t \<in> set allowedThemes"
    by (simp add: build_env_fields allowedThemes_def)
  with vite_iff v0 have "build_failures vite_fails_env [] (fst (build_main vite_fails_env)) \<noteq> []"
    by simp
  with vite_first
  have v3: "\<exists>tr1 t err. t \<in> set (themes vite_fails_env)
         \<and> fst (build_main vite_fails_env)
             = tr1 @ [ExecFileSync ''cross-env'' (viteArgs t), SpinnerFail (fail_message t err)]
         \<and> build_failures vite_fails_env [] tr1 = []
         \<and> execFileSync vite_fails_env tr1 ''cross-env'' (viteArgs t) = Some err"
    by (rule mp)

  have i0: "snd (build_main invalid_theme_env) = 1"
    by (simp add: invalid_theme_env_run)
  have "\<exists>t \<in> set (themes invalid_theme_env). t \<notin> set allowedThemes"
    by (simp add: build_env_fields allowedThemes_def)
  moreover have "build_failures invalid_theme_env [] (fst (build_main invalid_theme_env)) = []"
    by (simp add: invalid_theme_env_run build_failure_simps build_env_fields)
  ultimately have "(\<exists>t \<in> set (themes invalid_theme_env). t \<notin> set allowedThemes)
        \<and> build_failures invalid_theme_env [] (fst (build_main invalid_theme_env)) = []"
    by (rule conjI)
  with inv_invalid
  have "\<exists>t \<in> set (themes invalid_theme_env). t \<notin> set allowedThemes
          \<and> last (fst (build_main invalid_theme_env)) = SpinnerFail (fail_message t (invalid_theme t))"
    by (rule mp)
  then obtain t where "t \<in> set [''lumen'', ''acme'']" and "t \<notin> set allowedThemes"
    and l: "last (fst (build_main invalid_theme_env)) = SpinnerFail (fail_message t (invalid_theme t))"
    unfolding build_env_fields by blast
  then have "t = ''acme''"
    by (auto simp: allowedThemes_def)
  with l have i1: "last (fst (build_main invalid_theme_env))
       = SpinnerFail (fail_message ''acme'' (invalid_theme ''acme''))"
    by simp

  have g0: "snd (run_generator sass_fails_env) = 0"
    by (simp add: sass_fails_env_run)
  with sass_code have g1: "\<not> error_reported (fst (run_generator sass_fails_env))"
    by (metis zero_neq_one)
  with sass_iff have g2: "failures sass_fails_env [] (fst (run_generator sass_fails_env)) = []"
    by simp
  have g3: "ConsoleWarn (resolve_message ''lumen'' (Error ''Undefined variable.''))
       \<in> set (fst (run_generator sass_fails_env))"
    by (simp add: sass_fails_env_run)

  have nu: "never_throws unknown_theme_env"
    and nj: "\<forall>content. JSON_parse unknown_theme_env content = None"
    by (simp_all add: never_throws_def unknown_theme_env_def sass_fails_env_def)
  have u0: "snd (run_generator unknown_theme_env) = 1"
    by (simp add: unknown_theme_env_run)
  with unknown_code have u1: "error_reported (fst (run_generator unknown_theme_env))"
    by (metis zero_neq_one)
  with unknown_last have u2: "\<exists>m. last (fst (run_generator unknown_theme_env)) = ConsoleError m"
    by (rule mp)
  from nu nj u1 have "never_throws unknown_theme_env
        \<and> (\<forall>content. JSON_parse unknown_theme_env content = None)
        \<and> error_reported (fst (run_generator unknown_theme_env))"
    by simp
  with unknown_only
  have u3: "\<exists>t. fst (run_generator unknown_theme_env) = [ConsoleError (unknown_theme_message t)]"
    by (rule mp)

  have m0: "snd (run_generator global_missing_env) = 1"
    by (simp add: global_missing_env_run)
  with missing_code have "error_reported (fst (run_generator global_missing_env))"
    by (metis zero_neq_one)
  with missing_iff
  have "(\<exists>t. fst (run_generator global_missing_env) = [ConsoleError (unknown_theme_message t)])
        \<or> failures global_missing_env [] (fst (run_generator global_missing_env)) \<noteq> []"
    by simp
  moreover have "length (fst (run_generator global_missing_env)) = 2"
    by (simp add: global_missing_env_run)
  ultimately have "failures global_missing_env [] (fst (run_generator global_missing_env)) \<noteq> []"
    by auto
  with missing_first
  have m1: "\<exists>tr1 e err. fst (run_generator global_missing_env)
                      = tr1 @ [e, ConsoleError (''Error: '' @ message err)]
         \<and> failures global_missing_env [] tr1 = []
         \<and> failure global_missing_env tr1 e = Some err"
    by (rule mp)

  from b0 b1 b2 rm_del b3 v0 v1 v2 v3 i0 i1 g0 g1 g2 sass_heed g3 u0 u1 u2 u3 m0 m1
  show ?thesis
    by (intro conjI)
qed

text \<open>
  The claim as stated fails on a run of the generator for one theme in which the Sass
  compiler throws: the failure is reported by a warning, after which the run goes on,
  writes the metadata of the theme without resolved values, and ends with exit code 0.
\<close>

theorem warning_and_exit_code_zero:
  "snd (run_generator sass_fails_env) = 0
   \<and> drop 6 (fst (run_generator sass_fails_env)) =
       [SassCompile ''/chi/src/chi/themes/lumen/css-variables.scss'',
        ConsoleWarn (resolve_message ''lumen'' (Error ''Undefined variable.'')),
        MkdirSync ''/chi/dist/tokens'',
        WriteFileSync ''/chi/dist/tokens/lumen.json''
          (MetadataJson (generateTokenMetadata (parseScssVariables theme_file)
             (parseScssVariables global_file) ''lumen'' example_output example_stamp))]"
  by (simp add: sass_fails_env_run)


















end
